theory Spec2Isabelle
  imports Complex_Main
begin

section \<open>Exhaustive distance computation (faiss/utils/distances.cpp)\<close>

text \<open>
  The C++ works on \<^verbatim>\<open>float\<close> buffers reached through raw pointers. Here a pointer is
  the view of memory from that pointer on: a function from the element offset to the
  value stored there, and \<^verbatim>\<open>p + n\<close> shifts the view. \<^verbatim>\<open>float\<close> arithmetic is taken
  in exact real arithmetic, \<^verbatim>\<open>sqrtf\<close> is the real square root, and \<^verbatim>\<open>size_t\<close> counters
  are natural numbers (no buffer reaches the size where they would wrap).
\<close>

type_synonym fptr = "nat \<Rightarrow> real"

definition ptr_add :: "fptr \<Rightarrow> nat \<Rightarrow> fptr" where
  "ptr_add p n = (\<lambda>k. p (n + k))"

definition float_array :: "real list \<Rightarrow> fptr" where
  \<comment> \<open>A caller's buffer holding the given values (zero beyond its end).\<close>
  "float_array xs = (\<lambda>k. if k < length xs then xs ! k else 0)"

subsection \<open>Elementary kernels\<close>

text \<open>
  Modelled from the spec: \<^verbatim>\<open>fvec_inner_product\<close>, \<^verbatim>\<open>fvec_L2sqr\<close> and
  \<^verbatim>\<open>fvec_norm_L2sqr\<close> come from \<^verbatim>\<open>simd/hook.h\<close>, which is outside the two
  source files verified here. The spec gives their contract: the dot product, the squared Euclidean distance
  and the squared norm over the first \<open>d\<close> components.
\<close>

primrec fvec_inner_product :: "fptr \<Rightarrow> fptr \<Rightarrow> nat \<Rightarrow> real" where
  "fvec_inner_product x y 0 = 0"
| "fvec_inner_product x y (Suc d) = fvec_inner_product x y d + x d * y d"

primrec fvec_L2sqr :: "fptr \<Rightarrow> fptr \<Rightarrow> nat \<Rightarrow> real" where
  "fvec_L2sqr x y 0 = 0"
| "fvec_L2sqr x y (Suc d) = fvec_L2sqr x y d + (x d - y d) * (x d - y d)"

primrec fvec_norm_L2sqr :: "fptr \<Rightarrow> nat \<Rightarrow> real" where
  "fvec_norm_L2sqr x 0 = 0"
| "fvec_norm_L2sqr x (Suc d) = fvec_norm_L2sqr x d + x d * x d"

definition fvec_cosine :: "fptr \<Rightarrow> fptr \<Rightarrow> nat \<Rightarrow> real" where
  "fvec_cosine x y d = fvec_inner_product x y d / sqrt (fvec_norm_L2sqr y d)"

subsection \<open>Norms and renormalisation\<close>

text \<open>
  An array that a function fills in place is passed in and returned; the loop writes
  entry \<open>i\<close> with a function update. \<^verbatim>\<open>#pragma omp parallel for\<close> loops whose
  iterations write disjoint entries run in index order.
\<close>

definition fvec_norms_L2 :: "fptr \<Rightarrow> fptr \<Rightarrow> nat \<Rightarrow> nat \<Rightarrow> fptr" where
  "fvec_norms_L2 nr x d nx =
     fold (\<lambda>i nr. nr(i := sqrt (fvec_norm_L2sqr (ptr_add x (i * d)) d))) [0..<nx] nr"

definition fvec_norms_L2sqr :: "fptr \<Rightarrow> fptr \<Rightarrow> nat \<Rightarrow> nat \<Rightarrow> fptr" where
  "fvec_norms_L2sqr nr x d nx =
     fold (\<lambda>i nr. nr(i := fvec_norm_L2sqr (ptr_add x (i * d)) d)) [0..<nx] nr"




subsection \<open>Filter mask and result handlers\<close>

text \<open>
  \<^verbatim>\<open>BitsetView\<close> is an opaque predicate over database positions, owned by the caller:
  \<^verbatim>\<open>empty()\<close> says that nothing is filtered, \<^verbatim>\<open>test(j)\<close> that position \<open>j\<close> is
  excluded.
\<close>

record bitset_view =
  bv_empty :: bool
  bv_test :: "nat \<Rightarrow> bool"

definition no_bitset :: bitset_view where
  \<comment> \<open>The default argument \<^verbatim>\<open>nullptr\<close>: an empty view.\<close>
  "no_bitset = \<lparr>bv_empty = True, bv_test = (\<lambda>j. False)\<rparr>"

text \<open>
  The drivers are templates over a \<^verbatim>\<open>ResultHandler\<close> class
  (\<^verbatim>\<open>faiss/impl/ResultHandler.h\<close>, outside the source files verified here). The
  template parameter
  becomes a record of the member functions the drivers call, over the handler's state
  \<open>'h\<close>. A \<^verbatim>\<open>SingleResultHandler\<close> writes into its parent, so its calls carry the query
  index given to \<^verbatim>\<open>begin\<close>. In \<open>rh_merge\<close> and \<open>rh_copy_from\<close> the argument handler comes
  before the handler that is updated;
  \<open>rh_new nh k\<close> is the constructor, for \<open>nh\<close> queries and \<open>k\<close> results each.
\<close>

record 'h result_handler =
  rh_new :: "nat \<Rightarrow> nat \<Rightarrow> 'h"
  rh_k :: "'h \<Rightarrow> nat"
  rh_begin :: "nat \<Rightarrow> 'h \<Rightarrow> 'h"
  rh_add_result :: "nat \<Rightarrow> real \<Rightarrow> nat \<Rightarrow> 'h \<Rightarrow> 'h"
  rh_end :: "nat \<Rightarrow> 'h \<Rightarrow> 'h"
  rh_begin_multiple :: "nat \<Rightarrow> nat \<Rightarrow> 'h \<Rightarrow> 'h"
  rh_add_results :: "nat \<Rightarrow> nat \<Rightarrow> fptr \<Rightarrow> bitset_view \<Rightarrow> 'h \<Rightarrow> 'h"
  rh_end_multiple :: "'h \<Rightarrow> 'h"
  rh_clone_n :: "nat \<Rightarrow> nat \<Rightarrow> 'h \<Rightarrow> 'h list"
  rh_add_single_result :: "nat \<Rightarrow> real \<Rightarrow> nat \<Rightarrow> 'h \<Rightarrow> 'h"
  rh_merge :: "nat \<Rightarrow> 'h \<Rightarrow> 'h \<Rightarrow> 'h"
  rh_copy_from :: "'h \<Rightarrow> nat \<Rightarrow> nat \<Rightarrow> 'h \<Rightarrow> 'h"

text \<open>
  What the platform supplies: \<^verbatim>\<open>omp_get_max_threads()\<close>, \<^verbatim>\<open>get_l3_size()\<close> and, for a
  statically scheduled parallel loop, the thread \<^verbatim>\<open>omp_get_thread_num()\<close> that runs
  iteration \<open>j\<close>, and the content of memory that \<^verbatim>\<open>new float[n]\<close> returns. A parallel
  loop is run here in index order; its iterations touch disjoint handler state.
\<close>

record platform =
  omp_get_max_threads :: nat
  get_l3_size :: nat
  omp_thread_of :: "nat \<Rightarrow> nat"
  uninitialized :: fptr

text \<open>
  A call either returns its value (\<open>Inr\<close>) or does not: it divides by zero, fails an
  assertion, or loops forever.
\<close>

datatype fault = DivisionByZero | AssertionFailed | NeverReturns

subsection \<open>Nested-loop strategies\<close>

definition parallel_policy_threshold :: nat where
  "parallel_policy_threshold = 65535"

definition exhaustive_parallel_on_nx ::
  "'h result_handler \<Rightarrow> fptr \<Rightarrow> fptr \<Rightarrow> nat \<Rightarrow> nat \<Rightarrow> nat \<Rightarrow> 'h
    \<Rightarrow> (fptr \<Rightarrow> fptr \<Rightarrow> nat \<Rightarrow> real) \<Rightarrow> bitset_view \<Rightarrow> 'h" where
  "exhaustive_parallel_on_nx H x y d nx ny res dis_compute_func bitset =
     fold (\<lambda>i resi.
        let x_i = ptr_add x (i * d);
            resi = rh_begin H i resi;
            resi = fold (\<lambda>j resi.
                     if bv_empty bitset \<or> \<not> bv_test bitset j
                     then rh_add_result H i (dis_compute_func x_i (ptr_add y (j * d)) d) j resi
                     else resi) [0..<ny] resi
        in rh_end H i resi) [0..<nx] res"

definition on_ny_scan ::
  "'h result_handler \<Rightarrow> platform \<Rightarrow> fptr \<Rightarrow> fptr \<Rightarrow> nat \<Rightarrow> nat
    \<Rightarrow> (fptr \<Rightarrow> fptr \<Rightarrow> nat \<Rightarrow> real) \<Rightarrow> bitset_view \<Rightarrow> nat \<Rightarrow> nat
    \<Rightarrow> 'h list \<Rightarrow> 'h list" where
  \<comment> \<open>The statically scheduled loop over the database of \<^verbatim>\<open>exhaustive_parallel_on_ny\<close>.\<close>
  "on_ny_scan H pf x y d ny dis_compute_func bitset x_from sz ress =
     fold (\<lambda>j ress.
        let t = omp_thread_of pf j in
        if bv_empty bitset \<or> \<not> bv_test bitset j
        then fold (\<lambda>i ress.
               ress[t := rh_add_single_result H i
                  (dis_compute_func (ptr_add x ((x_from + i) * d)) (ptr_add y (j * d)) d) j
                  (ress ! t)]) [0..<sz] ress
        else ress) [0..<ny] ress"

definition on_ny_merge :: "'h result_handler \<Rightarrow> nat \<Rightarrow> nat \<Rightarrow> 'h list \<Rightarrow> 'h list" where
  \<comment> \<open>The merge of the threads' partial handlers into \<^verbatim>\<open>ress[0]\<close>.\<close>
  "on_ny_merge H thread_max_num sz ress =
     fold (\<lambda>t ress.
        fold (\<lambda>i ress. ress[0 := rh_merge H i (ress ! t) (ress ! 0)]) [0..<sz] ress)
       [1..<thread_max_num] ress"

function on_ny_blocks ::
  "'h result_handler \<Rightarrow> platform \<Rightarrow> fptr \<Rightarrow> fptr \<Rightarrow> nat \<Rightarrow> nat \<Rightarrow> nat
    \<Rightarrow> (fptr \<Rightarrow> fptr \<Rightarrow> nat \<Rightarrow> real) \<Rightarrow> bitset_view \<Rightarrow> nat \<Rightarrow> nat
    \<Rightarrow> 'h list \<Rightarrow> 'h \<Rightarrow> 'h" where
  \<comment> \<open>The loop over query blocks; \<open>block_x\<close> is at least 1 when it is entered.\<close>
  "on_ny_blocks H pf x y d nx ny dis_compute_func bitset block_x x_from ress res =
     (if x_from < nx \<and> 0 < block_x then
        let x_to = min nx (x_from + block_x);
            sz = x_to - x_from;
            ress = fold (\<lambda>t ress. ress[t := rh_begin_multiple H 0 block_x (ress ! t)])
                     [0..<omp_get_max_threads pf] ress;
            ress = on_ny_scan H pf x y d ny dis_compute_func bitset x_from sz ress;
            ress = on_ny_merge H (omp_get_max_threads pf) sz ress;
            ress = ress[0 := rh_end_multiple H (ress ! 0)];
            res = rh_copy_from H (ress ! 0) x_from sz res
        in on_ny_blocks H pf x y d nx ny dis_compute_func bitset block_x x_to ress res
      else res)"
  by pat_completeness auto
termination
  by (relation "measure (\<lambda>(H, pf, x, y, d, nx, ny, f, bs, block_x, x_from, ress, res). nx - x_from)")
    auto

declare on_ny_blocks.simps [simp del]

definition exhaustive_parallel_on_ny ::
  "'h result_handler \<Rightarrow> platform \<Rightarrow> fptr \<Rightarrow> fptr \<Rightarrow> nat \<Rightarrow> nat \<Rightarrow> nat \<Rightarrow> 'h
    \<Rightarrow> (fptr \<Rightarrow> fptr \<Rightarrow> nat \<Rightarrow> real) \<Rightarrow> bitset_view \<Rightarrow> fault + 'h" where
  "exhaustive_parallel_on_ny H pf x y d nx ny res dis_compute_func bitset =
     (let k = rh_k H res;
          thread_max_num = omp_get_max_threads pf;
          val = d * 4 + thread_max_num * k * (4 + 8)
      in if val = 0 then Inl DivisionByZero
         else
           let block_x = min (get_l3_size pf div val) nx;
               block_x = (if block_x = 0 then 1 else block_x);
               ress = rh_clone_n H thread_max_num block_x res
           in Inr (on_ny_blocks H pf x y d nx ny dis_compute_func bitset block_x 0 ress res))"

definition database_parallel :: "nat \<Rightarrow> nat \<Rightarrow> nat \<Rightarrow> bool" where
  \<comment> \<open>The condition of the \<^verbatim>\<open>if\<close> in \<^verbatim>\<open>exhaustive_L2sqr_IP_seq\<close>.\<close>
  "database_parallel thread_max_num nx ny \<longleftrightarrow>
     ny > parallel_policy_threshold
     \<or> (nx < thread_max_num div 2 \<and> ny \<ge> thread_max_num * 32)"

definition exhaustive_L2sqr_IP_seq ::
  "'h result_handler \<Rightarrow> platform \<Rightarrow> fptr \<Rightarrow> fptr \<Rightarrow> nat \<Rightarrow> nat \<Rightarrow> nat \<Rightarrow> 'h
    \<Rightarrow> (fptr \<Rightarrow> fptr \<Rightarrow> nat \<Rightarrow> real) \<Rightarrow> bitset_view \<Rightarrow> fault + 'h" where
  "exhaustive_L2sqr_IP_seq H pf x y d nx ny res dis_compute_func bitset =
     (let thread_max_num = omp_get_max_threads pf in
      if database_parallel thread_max_num nx ny
      then exhaustive_parallel_on_ny H pf x y d nx ny res dis_compute_func bitset
      else Inr (exhaustive_parallel_on_nx H x y d nx ny res dis_compute_func bitset))"

subsection \<open>BLAS-backed strategies\<close>

record tunables =
  distance_compute_blas_threshold :: nat
  distance_compute_blas_query_bs :: nat
  distance_compute_blas_database_bs :: nat
  distance_compute_min_k_reservoir :: nat

definition default_tunables :: tunables where
  "default_tunables =
     \<lparr>distance_compute_blas_threshold = 16384,
      distance_compute_blas_query_bs = 4096,
      distance_compute_blas_database_bs = 1024,
      distance_compute_min_k_reservoir = 100\<rparr>"

text \<open>
  The blocked loops \<^verbatim>\<open>for (i0 = 0; i0 < n; i0 += bs) { i1 = min(i0 + bs, n); ... }\<close>.
  With a block size of zero the C++ loop never advances.
\<close>

function block_loop ::
  "nat \<Rightarrow> nat \<Rightarrow> (nat \<Rightarrow> nat \<Rightarrow> 's \<Rightarrow> fault + 's) \<Rightarrow> nat \<Rightarrow> 's \<Rightarrow> fault + 's" where
  "block_loop bs n body i0 s =
     (if i0 < n then
        if bs = 0 then Inl NeverReturns
        else
          let i1 = (if i0 + bs > n then n else i0 + bs) in
          case body i0 i1 s of
            Inl e \<Rightarrow> Inl e
          | Inr s' \<Rightarrow> block_loop bs n body (i0 + bs) s'
      else Inr s)"
  by pat_completeness auto
termination
  by (relation "measure (\<lambda>(bs, n, body, i0, s). n - i0)") auto

declare block_loop.simps [simp del]

text \<open>
  \<^verbatim>\<open>sgemm_\<close> is the BLAS routine. Every call here has the form
  \<^verbatim>\<open>sgemm_("Transpose", "Not transpose", &nyi, &nxi, &di, &one, yb, &di, xb, &di, &zero, c, &nyi)\<close>,
  which by the BLAS contract overwrites the first \<open>nyi * nxi\<close> entries of \<open>c\<close> with the
  inner products of the \<open>nxi\<close> vectors at \<open>xb\<close> and the \<open>nyi\<close> vectors at \<open>yb\<close>: entry
  \<open>ii * nyi + jj\<close> is the one of vector \<open>ii\<close> of \<open>xb\<close> with vector \<open>jj\<close> of \<open>yb\<close>.
\<close>

definition sgemm :: "nat \<Rightarrow> nat \<Rightarrow> nat \<Rightarrow> fptr \<Rightarrow> fptr \<Rightarrow> fptr \<Rightarrow> fptr" where
  "sgemm nyi nxi di yb xb c =
     (\<lambda>p. if p < nyi * nxi
          then fvec_inner_product (ptr_add xb ((p div nyi) * di)) (ptr_add yb ((p mod nyi) * di)) di
          else c p)"

text \<open>
  The BLAS drivers share one loop nest: for each block of queries \<^verbatim>\<open>begin_multiple\<close>,
  then for each block of the database the \<^verbatim>\<open>sgemm_\<close> call into \<^verbatim>\<open>ip_block\<close>, the
  driver's own correction of the tile (\<open>correct\<close>) and \<^verbatim>\<open>add_results\<close> with the mask the
  driver passes (\<open>passed\<close>), then \<^verbatim>\<open>end_multiple\<close>. \<^verbatim>\<open>InterruptCallback::check()\<close>
  is taken with no interrupt pending.
\<close>

definition blas_blocks ::
  "'h result_handler \<Rightarrow> nat \<Rightarrow> nat \<Rightarrow> fptr \<Rightarrow> fptr \<Rightarrow> nat \<Rightarrow> nat \<Rightarrow> nat
    \<Rightarrow> (nat \<Rightarrow> nat \<Rightarrow> nat \<Rightarrow> nat \<Rightarrow> fptr \<Rightarrow> fptr) \<Rightarrow> bitset_view \<Rightarrow> fptr \<Rightarrow> 'h
    \<Rightarrow> fault + 'h" where
  "blas_blocks H bs_x bs_y x y d nx ny correct passed ip_block res =
     map_sum id snd
       (block_loop bs_x nx (\<lambda>i0 i1 (ip_block, res).
           map_sum id (\<lambda>(ip_block, res). (ip_block, rh_end_multiple H res))
             (block_loop bs_y ny (\<lambda>j0 j1 (ip_block, res).
                 let ip_block = sgemm (j1 - j0) (i1 - i0) d
                                  (ptr_add y (j0 * d)) (ptr_add x (i0 * d)) ip_block;
                     ip_block = correct i0 i1 j0 j1 ip_block
                 in Inr (ip_block, rh_add_results H j0 j1 ip_block passed res))
                0 (ip_block, rh_begin_multiple H i0 i1 res)))
          0 (ip_block, res))"

definition L2sqr_correct_block ::
  "fptr \<Rightarrow> fptr \<Rightarrow> nat \<Rightarrow> nat \<Rightarrow> nat \<Rightarrow> nat \<Rightarrow> fptr \<Rightarrow> fptr" where
  \<comment> \<open>The correction loop of \<^verbatim>\<open>exhaustive_L2sqr_blas\<close>; \<^verbatim>\<open>ip_line\<close> is at offset \<open>p\<close>.\<close>
  "L2sqr_correct_block x_norms y_norms i0 i1 j0 j1 ip_block =
     fold (\<lambda>i ip_block.
        fold (\<lambda>j ip_block.
           let p = (i - i0) * (j1 - j0) + (j - j0);
               ip = ip_block p;
               dis = x_norms i + y_norms j - 2 * ip;
               dis = (if dis < 0 then 0 else dis)
           in ip_block(p := dis)) [j0..<j1] ip_block) [i0..<i1] ip_block"

definition exhaustive_L2sqr_blas ::
  "'h result_handler \<Rightarrow> tunables \<Rightarrow> platform \<Rightarrow> fptr \<Rightarrow> fptr \<Rightarrow> nat \<Rightarrow> nat \<Rightarrow> nat \<Rightarrow> 'h
    \<Rightarrow> fptr option \<Rightarrow> bitset_view \<Rightarrow> fault + 'h" where
  "exhaustive_L2sqr_blas H tn pf x y d nx ny res y_norms bitset =
     (if nx = 0 \<or> ny = 0 then Inr res
      else
        let bs_x = distance_compute_blas_query_bs tn;
            bs_y = distance_compute_blas_database_bs tn;
            ip_block = uninitialized pf;
            x_norms = fvec_norms_L2sqr (uninitialized pf) x d nx;
            y_norms = (case y_norms of
                         None \<Rightarrow> fvec_norms_L2sqr (uninitialized pf) y d ny
                       | Some given \<Rightarrow> given)
        in blas_blocks H bs_x bs_y x y d nx ny (L2sqr_correct_block x_norms y_norms)
             bitset ip_block res)"

definition cosine_correct_block :: "fptr \<Rightarrow> nat \<Rightarrow> nat \<Rightarrow> nat \<Rightarrow> nat \<Rightarrow> fptr \<Rightarrow> fptr" where
  \<comment> \<open>The correction loop of \<^verbatim>\<open>exhaustive_cosine_blas\<close>.\<close>
  "cosine_correct_block y_norms i0 i1 j0 j1 ip_block =
     fold (\<lambda>i ip_block.
        fold (\<lambda>j ip_block.
           let p = (i - i0) * (j1 - j0) + (j - j0);
               ip = ip_block p;
               dis = ip / y_norms j
           in ip_block(p := dis)) [j0..<j1] ip_block) [i0..<i1] ip_block"

definition exhaustive_cosine_blas ::
  "'h result_handler \<Rightarrow> tunables \<Rightarrow> platform \<Rightarrow> fptr \<Rightarrow> fptr \<Rightarrow> nat \<Rightarrow> nat \<Rightarrow> nat \<Rightarrow> 'h
    \<Rightarrow> bitset_view \<Rightarrow> fault + 'h" where
  \<comment> \<open>\<^verbatim>\<open>y_norms\<close> is \<^verbatim>\<open>new float[nx]\<close>, filled by \<^verbatim>\<open>fvec_norms_L2(y_norms.get(), x, d, nx)\<close>.\<close>
  "exhaustive_cosine_blas H tn pf x y d nx ny res bitset =
     (if nx = 0 \<or> ny = 0 then Inr res
      else
        let bs_x = distance_compute_blas_query_bs tn;
            bs_y = distance_compute_blas_database_bs tn;
            ip_block = uninitialized pf;
            y_norms = fvec_norms_L2 (uninitialized pf) x d nx
        in blas_blocks H bs_x bs_y x y d nx ny (cosine_correct_block y_norms)
             bitset ip_block res)"

definition jaccard_correct_block ::
  "(real \<Rightarrow> nat \<Rightarrow> nat \<Rightarrow> real) \<Rightarrow> bitset_view \<Rightarrow> fptr \<Rightarrow> fptr
    \<Rightarrow> nat \<Rightarrow> nat \<Rightarrow> nat \<Rightarrow> nat \<Rightarrow> fptr \<Rightarrow> fptr" where
  \<comment> \<open>The loop "collect minima" of \<^verbatim>\<open>knn_jaccard_blas\<close>.\<close>
  "jaccard_correct_block corr bitset x_norms y_norms i0 i1 j0 j1 ip_block =
     fold (\<lambda>i ip_block.
        fold (\<lambda>j ip_block.
           let p = (i - i0) * (j1 - j0) + (j - j0) in
           if bv_empty bitset \<or> \<not> bv_test bitset j then
             let ip = ip_block p;
                 dis = 1 - ip / (x_norms i + y_norms j - ip);
                 dis = (if dis < 0 then 0 else dis);
                 dis = corr dis i j
             in ip_block(p := dis)
           else ip_block) [j0..<j1] ip_block) [i0..<i1] ip_block"

definition knn_jaccard_blas ::
  "'h result_handler \<Rightarrow> platform \<Rightarrow> fptr \<Rightarrow> fptr \<Rightarrow> nat \<Rightarrow> nat \<Rightarrow> nat \<Rightarrow> 'h
    \<Rightarrow> (real \<Rightarrow> nat \<Rightarrow> nat \<Rightarrow> real) \<Rightarrow> bitset_view \<Rightarrow> fault + 'h" where
  \<comment> \<open>The call \<^verbatim>\<open>res.add_results(j0, j1, ip_block)\<close> passes no bitset: the handler gets
      the default argument.\<close>
  "knn_jaccard_blas H pf x y d nx ny res corr bitset =
     (if nx = 0 \<or> ny = 0 then Inr res
      else
        let bs_x = 4096; bs_y = 1024;
            ip_block = uninitialized pf;
            x_norms = fvec_norms_L2sqr (uninitialized pf) x d nx;
            y_norms = fvec_norms_L2sqr (uninitialized pf) y d ny
        in blas_blocks H bs_x bs_y x y d nx ny
             (jaccard_correct_block corr bitset x_norms y_norms) no_bitset ip_block res)"

subsection \<open>KNN driver functions\<close>

text \<open>
  \<^verbatim>\<open>float_minheap_array_t\<close> and \<^verbatim>\<open>float_maxheap_array_t\<close>: the number of heaps \<open>nh\<close>,
  their size \<open>k\<close>, and the output arrays, which the handler built over them stands for.
\<close>

record heap_array =
  ha_nh :: nat
  ha_k :: nat

definition knn_cosine ::
  "'h result_handler \<Rightarrow> 'h result_handler \<Rightarrow> tunables \<Rightarrow> platform
    \<Rightarrow> fptr \<Rightarrow> fptr \<Rightarrow> nat \<Rightarrow> nat \<Rightarrow> nat \<Rightarrow> heap_array \<Rightarrow> bitset_view \<Rightarrow> fault + 'h" where
  \<comment> \<open>\<open>HeapResultHandler\<close> and \<open>ReservoirResultHandler\<close> are the two handler classes
      (over \<^verbatim>\<open>CMin<float, int64_t>\<close>).\<close>
  "knn_cosine HeapResultHandler ReservoirResultHandler tn pf x y d nx ny ha bitset =
     (if ha_k ha < distance_compute_min_k_reservoir tn then
        let res = rh_new HeapResultHandler (ha_nh ha) (ha_k ha) in
        if nx < distance_compute_blas_threshold tn
        then exhaustive_L2sqr_IP_seq HeapResultHandler pf x y d nx ny res fvec_cosine bitset
        else exhaustive_cosine_blas HeapResultHandler tn pf x y d nx ny res bitset
      else
        let res = rh_new ReservoirResultHandler (ha_nh ha) (ha_k ha) in
        if nx < distance_compute_blas_threshold tn
        then exhaustive_L2sqr_IP_seq ReservoirResultHandler pf x y d nx ny res
               fvec_inner_product bitset
        else exhaustive_cosine_blas ReservoirResultHandler tn pf x y d nx ny res bitset)"

definition NopDistanceCorrection :: "real \<Rightarrow> nat \<Rightarrow> nat \<Rightarrow> real" where
  "NopDistanceCorrection dis qno bno = dis"

definition knn_jaccard ::
  "'h result_handler \<Rightarrow> platform \<Rightarrow> fptr \<Rightarrow> fptr \<Rightarrow> nat \<Rightarrow> nat \<Rightarrow> nat \<Rightarrow> heap_array
    \<Rightarrow> bitset_view \<Rightarrow> fault + 'h" where
  "knn_jaccard HeapResultHandler pf x y d nx ny ha bitset =
     (if d mod 4 \<noteq> 0 then Inl AssertionFailed
      else
        let res = rh_new HeapResultHandler (ha_nh ha) (ha_k ha) in
        knn_jaccard_blas HeapResultHandler pf x y d nx ny res NopDistanceCorrection bitset)"

subsection \<open>Re-ranking a candidate list by index\<close>

text \<open>
  The candidate ids are \<^verbatim>\<open>int64_t\<close>, and \<^verbatim>\<open>y + d * idsi[j]\<close> is formed before any check
  in \<^verbatim>\<open>knn_L2sqr_by_idx\<close>, so the database is taken here as the memory around the
  pointer \<^verbatim>\<open>y\<close>, addressed by a signed offset (the unsigned product of the C++ wraps
  to the same address); \<open>ptr_at y off\<close> is the view from \<^verbatim>\<open>y + off\<close>.

  The heap entries are the values of \<^verbatim>\<open>float\<close> that a heap holds: a real number or the
  sentinel of an unfilled slot, which the spec gives as \<open>-\<infinity>\<close> for a maximising and
  \<open>+\<infinity>\<close> for a minimising metric.
\<close>

type_synonym fmem = "int \<Rightarrow> real"

definition ptr_at :: "fmem \<Rightarrow> int \<Rightarrow> fptr" where
  "ptr_at y off = (\<lambda>k. y (off + int k))"

datatype fval = MinusInfinity | Finite real | PlusInfinity

fun fval_less :: "fval \<Rightarrow> fval \<Rightarrow> bool" where
  "fval_less (Finite a) (Finite b) = (a < b)"
| "fval_less MinusInfinity b = (b \<noteq> MinusInfinity)"
| "fval_less a PlusInfinity = (a \<noteq> PlusInfinity)"
| "fval_less a b = False"

text \<open>
  The heap primitives (\<^verbatim>\<open>faiss/utils/Heap.h\<close>, outside the source files verified here)
  are the parameters of the re-ranking functions; \<open>heap_top\<close> reads \<^verbatim>\<open>simi[0]\<close>, which
  is inside the array for \<open>k \<ge> 1\<close>.
\<close>

record 'q heap_ops =
  heap_heapify :: "nat \<Rightarrow> 'q \<Rightarrow> 'q"
  heap_top :: "'q \<Rightarrow> fval"
  heap_replace_top :: "nat \<Rightarrow> real \<Rightarrow> int \<Rightarrow> 'q \<Rightarrow> 'q"
  heap_reorder :: "nat \<Rightarrow> 'q \<Rightarrow> 'q"

function inner_products_by_idx_scan ::
  "'q heap_ops \<Rightarrow> fptr \<Rightarrow> fmem \<Rightarrow> (nat \<Rightarrow> int) \<Rightarrow> nat \<Rightarrow> nat \<Rightarrow> nat \<Rightarrow> nat \<Rightarrow> 'q \<Rightarrow> 'q" where
  \<comment> \<open>The loop over \<open>j\<close> of \<^verbatim>\<open>knn_inner_products_by_idx\<close>, with its \<^verbatim>\<open>break\<close>.\<close>
  "inner_products_by_idx_scan minheap xi y idsi d ny k j simi =
     (if j < ny then
        if idsi j < 0 then simi
        else
          let ip = fvec_inner_product xi (ptr_at y (int d * idsi j)) d;
              simi = (if fval_less (heap_top minheap simi) (Finite ip)
                      then heap_replace_top minheap k ip (idsi j) simi else simi)
          in inner_products_by_idx_scan minheap xi y idsi d ny k (j + 1) simi
      else simi)"
  by pat_completeness auto
termination
  by (relation "measure (\<lambda>(minheap, xi, y, idsi, d, ny, k, j, simi). ny - j)") auto

declare inner_products_by_idx_scan.simps [simp del]

definition knn_inner_products_by_idx ::
  "'q heap_ops \<Rightarrow> fptr \<Rightarrow> fmem \<Rightarrow> (nat \<Rightarrow> int) \<Rightarrow> nat \<Rightarrow> nat \<Rightarrow> nat \<Rightarrow> nat
    \<Rightarrow> (nat \<Rightarrow> 'q) \<Rightarrow> (nat \<Rightarrow> 'q)" where
  "knn_inner_products_by_idx minheap x y ids d nx ny k res =
     fold (\<lambda>i res.
        let xi = ptr_add x (i * d);
            idsi = (\<lambda>j. ids (i * ny + j));
            simi = heap_heapify minheap k (res i);
            simi = inner_products_by_idx_scan minheap xi y idsi d ny k 0 simi
        in res(i := heap_reorder minheap k simi)) [0..<nx] res"

definition knn_L2sqr_by_idx ::
  "'q heap_ops \<Rightarrow> fptr \<Rightarrow> fmem \<Rightarrow> (nat \<Rightarrow> int) \<Rightarrow> nat \<Rightarrow> nat \<Rightarrow> nat \<Rightarrow> nat
    \<Rightarrow> (nat \<Rightarrow> 'q) \<Rightarrow> (nat \<Rightarrow> 'q)" where
  "knn_L2sqr_by_idx maxheap x y ids d nx ny k res =
     fold (\<lambda>i res.
        let xi = ptr_add x (i * d);
            idsi = (\<lambda>j. ids (i * ny + j));
            simi = heap_heapify maxheap k (res i);
            simi = fold (\<lambda>j simi.
                     let disij = fvec_L2sqr xi (ptr_at y (int d * idsi j)) d in
                     if fval_less (Finite disij) (heap_top maxheap simi)
                     then heap_replace_top maxheap k disij (idsi j) simi else simi)
                     [0..<ny] simi
        in res(i := heap_reorder maxheap k simi)) [0..<nx] res"

text \<open>
  Modelled from the spec: the heap primitives of \<^verbatim>\<open>faiss/utils/Heap.h\<close> are outside
  the source files verified here. By the spec a top-k answer set has exactly \<open>k\<close> slots of
  \<open>(distance, id)\<close>, initialised to the metric's sentinel and id \<open>-1\<close>; a new candidate
  replaces the current worst element; finalisation sorts, best first. The slots are
  kept here as a list with the worst element first.
\<close>

type_synonym heap_slots = "(fval \<times> int) list"

fun slot_insert :: "(fval \<Rightarrow> fval \<Rightarrow> bool) \<Rightarrow> fval \<times> int \<Rightarrow> heap_slots \<Rightarrow> heap_slots" where
  \<comment> \<open>Inserts a slot in front of the first slot that is not worse; \<open>worse a b\<close> says that
      \<open>a\<close> is worse than \<open>b\<close>.\<close>
  "slot_insert worse c [] = [c]"
| "slot_insert worse c (s # ss) =
     (if worse (fst s) (fst c) then s # slot_insert worse c ss else c # s # ss)"

definition minheap :: "heap_slots heap_ops" where
  \<comment> \<open>\<^verbatim>\<open>minheap_heapify\<close>, \<^verbatim>\<open>minheap_replace_top\<close>, \<^verbatim>\<open>minheap_reorder\<close>: keeps the largest
      values, the smallest on top.\<close>
  "minheap =
     \<lparr>heap_heapify = (\<lambda>k simi. replicate k (MinusInfinity, -1)),
      heap_top = (\<lambda>simi. fst (hd simi)),
      heap_replace_top = (\<lambda>k v id simi. slot_insert fval_less (Finite v, id) (tl simi)),
      heap_reorder = (\<lambda>k simi. rev simi)\<rparr>"

definition maxheap :: "heap_slots heap_ops" where
  \<comment> \<open>\<^verbatim>\<open>maxheap_heapify\<close>, \<^verbatim>\<open>maxheap_replace_top\<close>, \<^verbatim>\<open>maxheap_reorder\<close>: keeps the smallest
      values, the largest on top.\<close>
  "maxheap =
     \<lparr>heap_heapify = (\<lambda>k simi. replicate k (PlusInfinity, -1)),
      heap_top = (\<lambda>simi. fst (hd simi)),
      heap_replace_top = (\<lambda>k v id simi. slot_insert (\<lambda>a b. fval_less b a) (Finite v, id) (tl simi)),
      heap_reorder = (\<lambda>k simi. rev simi)\<rparr>"

definition int_array :: "int list \<Rightarrow> nat \<Rightarrow> int" where
  \<comment> \<open>A caller's array of ids (\<open>-1\<close> beyond its end).\<close>
  "int_array xs = (\<lambda>k. if k < length xs then xs ! k else -1)"

subsection \<open>Elkan's pruned nearest-neighbour assignment\<close>

definition Y_index :: "nat \<Rightarrow> nat \<Rightarrow> nat \<Rightarrow> nat" where
  \<comment> \<open>The lambda \<^verbatim>\<open>Y\<close> of \<^verbatim>\<open>elkan_L2_sse\<close>: the place in \<^verbatim>\<open>data\<close> of the pair \<open>(i, j)\<close>.\<close>
  "Y_index j0 i j =
     (let i = i - j0; j = j - j0 in
      if i > j then j + i * (i - 1) div 2 else i + j * (j - 1) div 2)"

definition elkan_pairwise :: "fptr \<Rightarrow> nat \<Rightarrow> nat \<Rightarrow> nat \<Rightarrow> fptr \<Rightarrow> fptr" where
  \<comment> \<open>The first parallel region: the pairwise distances within the block. Row \<open>i\<close> is
      written by one thread (of rank \<open>(i - j0 - 1) mod nt\<close>), rows are disjoint.\<close>
  "elkan_pairwise y d j0 j1 data =
     fold (\<lambda>i data.
        fold (\<lambda>j data.
           data(Y_index j0 i j := fvec_L2sqr (ptr_add y (i * d)) (ptr_add y (j * d)) d))
          [j0..<i] data) [j0 + 1..<j1] data"

definition elkan_step ::
  "fptr \<Rightarrow> fptr \<Rightarrow> nat \<Rightarrow> nat \<Rightarrow> fptr \<Rightarrow> nat \<Rightarrow> nat \<times> real \<times> real \<Rightarrow> nat \<times> real \<times> real" where
  \<comment> \<open>The body of the loop over \<open>j\<close> for the query \<open>x_i\<close>, on
      \<open>(ids_i, val_i, val_i_time_4)\<close>; each \<^verbatim>\<open>continue\<close> leaves the three unchanged.\<close>
  "elkan_step x_i y d j0 data j = (\<lambda>(ids_i, val_i, val_i_time_4).
     if val_i_time_4 \<le> data (Y_index j0 ids_i j) then (ids_i, val_i, val_i_time_4)
     else
       let y_j = ptr_add y (j * d);
           disij = fvec_L2sqr x_i y_j (d div 2)
       in if disij \<ge> val_i then (ids_i, val_i, val_i_time_4)
          else
            let disij = disij
                  + fvec_L2sqr (ptr_add x_i (d div 2)) (ptr_add y_j (d div 2)) (d - d div 2)
            in if disij < val_i then (j, disij, disij * 4)
               else (ids_i, val_i, val_i_time_4))"

definition elkan_scan_block ::
  "fptr \<Rightarrow> fptr \<Rightarrow> nat \<Rightarrow> nat \<Rightarrow> nat \<Rightarrow> fptr \<Rightarrow> nat \<times> real \<times> real" where
  \<comment> \<open>The scan of one block for the query \<open>x_i\<close>.\<close>
  "elkan_scan_block x_i y d j0 j1 data =
     fold (elkan_step x_i y d j0 data) [j0 + 1..<j1]
       (j0, fvec_L2sqr x_i (ptr_add y (j0 * d)) d, fvec_L2sqr x_i (ptr_add y (j0 * d)) d * 4)"

definition elkan_assign_block ::
  "fptr \<Rightarrow> fptr \<Rightarrow> nat \<Rightarrow> nat \<Rightarrow> nat \<Rightarrow> nat \<Rightarrow> fptr \<Rightarrow> (nat \<Rightarrow> int) \<times> fptr
    \<Rightarrow> (nat \<Rightarrow> int) \<times> fptr" where
  \<comment> \<open>The second parallel loop: each query scans the block and commits into
      \<^verbatim>\<open>ids[i]\<close>, \<^verbatim>\<open>val[i]\<close>.\<close>
  "elkan_assign_block x y d nx j0 j1 data =
     fold (\<lambda>i (ids, val).
        let x_i = ptr_add x (i * d);
            (ids_i, val_i, val_i_time_4) = elkan_scan_block x_i y d j0 j1 data
        in if j0 = 0 \<or> val i > val_i
           then (ids(i := int ids_i), val(i := val_i))
           else (ids, val)) [0..<nx]"

definition elkan_L2_sse ::
  "nat \<Rightarrow> platform \<Rightarrow> fptr \<Rightarrow> fptr \<Rightarrow> nat \<Rightarrow> nat \<Rightarrow> nat \<Rightarrow> (nat \<Rightarrow> int) \<Rightarrow> fptr
    \<Rightarrow> fault + (nat \<Rightarrow> int) \<times> fptr" where
  \<comment> \<open>\<open>bs_y\<close> is the block size, the constant 1024 in the source; \<^verbatim>\<open>data\<close> comes from
      \<^verbatim>\<open>malloc\<close>, taken to succeed.\<close>
  "elkan_L2_sse bs_y pf x y d nx ny ids val =
     (if nx = 0 \<or> ny = 0 then Inr (ids, val)
      else
        map_sum id snd
          (block_loop bs_y ny (\<lambda>j0 j1 (data, ids, val).
              let data = elkan_pairwise y d j0 j1 data
              in Inr (data, elkan_assign_block x y d nx j0 j1 data (ids, val)))
             0 (uninitialized pf, ids, val)))"

definition elkan_bs_y :: nat where
  "elkan_bs_y = 1024"

definition brute_force_nearest :: "fptr \<Rightarrow> fptr \<Rightarrow> nat \<Rightarrow> nat \<Rightarrow> nat \<times> real" where
  \<comment> \<open>The reference of the spec: a brute-force scan over all \<open>ny\<close> database vectors that
      keeps the first vector of least squared distance.\<close>
  "brute_force_nearest x_i y d ny =
     fold (\<lambda>j (best, dis).
        let disij = fvec_L2sqr x_i (ptr_add y (j * d)) d in
        if disij < dis then (j, disij) else (best, dis))
       [1..<ny] (0, fvec_L2sqr x_i y d)"

subsection \<open>A handler that keeps every candidate\<close>

text \<open>
  Modelled from the spec: the handler classes of \<^verbatim>\<open>faiss/impl/ResultHandler.h\<close> are
  outside the source files verified here. The spec (4.2) gives their interface: per query a handler
  receives \<open>(distance, id)\<close> pairs, the block call \<^verbatim>\<open>add_results\<close> ingests a row-major
  tile of distances for the database positions \<open>j0 \<le> j < j1\<close> and the queries of the
  current block and applies the filter mask while doing so, \<^verbatim>\<open>clone_n\<close> makes independent
  empty copies and \<^verbatim>\<open>merge\<close> folds another handler's candidates for one query into this
  one. The recording handler keeps every \<open>(query, distance, id)\<close> it is handed, so what
  any handler of that interface can return is drawn from its record.
\<close>

record recorder =
  rec_k :: nat
  rec_i0 :: nat
  rec_i1 :: nat
  rec_seen :: "(nat \<times> real \<times> nat) list"

definition rec_add :: "nat \<Rightarrow> real \<Rightarrow> nat \<Rightarrow> recorder \<Rightarrow> recorder" where
  "rec_add i dis j h = h\<lparr>rec_seen := rec_seen h @ [(i, dis, j)]\<rparr>"

definition rec_begin_multiple :: "nat \<Rightarrow> nat \<Rightarrow> recorder \<Rightarrow> recorder" where
  \<comment> \<open>Starts the block of queries \<open>i0 \<le> i < i1\<close> afresh.\<close>
  "rec_begin_multiple i0 i1 h =
     h\<lparr>rec_i0 := i0, rec_i1 := i1,
       rec_seen := filter (\<lambda>(i, dis, j). \<not> (i0 \<le> i \<and> i < i1)) (rec_seen h)\<rparr>"

definition rec_add_results :: "nat \<Rightarrow> nat \<Rightarrow> fptr \<Rightarrow> bitset_view \<Rightarrow> recorder \<Rightarrow> recorder" where
  "rec_add_results j0 j1 dis_tab bitset h =
     h\<lparr>rec_seen := rec_seen h @
        concat (map (\<lambda>i.
          map (\<lambda>j. (i, dis_tab ((i - rec_i0 h) * (j1 - j0) + (j - j0)), j))
            (filter (\<lambda>j. bv_empty bitset \<or> \<not> bv_test bitset j) [j0..<j1]))
          [rec_i0 h..<rec_i1 h])\<rparr>"

definition rec_merge :: "nat \<Rightarrow> recorder \<Rightarrow> recorder \<Rightarrow> recorder" where
  "rec_merge i other h =
     h\<lparr>rec_seen := rec_seen h @ filter (\<lambda>(i', dis, j). i' = i) (rec_seen other)\<rparr>"

definition rec_copy_from :: "recorder \<Rightarrow> nat \<Rightarrow> nat \<Rightarrow> recorder \<Rightarrow> recorder" where
  "rec_copy_from other x_from sz h =
     h\<lparr>rec_seen := rec_seen h
        @ map (\<lambda>(i, dis, j). (x_from + i, dis, j))
            (filter (\<lambda>(i, dis, j). i < sz) (rec_seen other))\<rparr>"

definition recording_handler :: "recorder result_handler" where
  "recording_handler =
     \<lparr>rh_new = (\<lambda>nh k. \<lparr>rec_k = k, rec_i0 = 0, rec_i1 = 0, rec_seen = []\<rparr>),
      rh_k = rec_k,
      rh_begin = (\<lambda>i h. h),
      rh_add_result = rec_add,
      rh_end = (\<lambda>i h. h),
      rh_begin_multiple = rec_begin_multiple,
      rh_add_results = rec_add_results,
      rh_end_multiple = (\<lambda>h. h),
      rh_clone_n = (\<lambda>n block_x h. replicate n (h\<lparr>rec_seen := []\<rparr>)),
      rh_add_single_result = rec_add,
      rh_merge = rec_merge,
      rh_copy_from = rec_copy_from\<rparr>"

subsection \<open>Stating what a recording handler has seen\<close>

definition y_norms_used :: "fptr \<Rightarrow> nat \<Rightarrow> fptr option \<Rightarrow> nat \<Rightarrow> real" where
  \<comment> \<open>Entry \<open>j\<close> of the table \<^verbatim>\<open>y_norms\<close> that \<^verbatim>\<open>exhaustive_L2sqr_blas\<close> reads: the
      caller's table when one is passed, the squared norm of database vector \<open>j\<close> when
      the pointer is null.\<close>
  "y_norms_used y d y_norms j =
     (case y_norms of
        None \<Rightarrow> fvec_norm_L2sqr (ptr_add y (j * d)) d
      | Some given \<Rightarrow> given j)"

definition norm_identity_L2sqr :: "fptr \<Rightarrow> fptr \<Rightarrow> nat \<Rightarrow> fptr \<Rightarrow> nat \<Rightarrow> nat \<Rightarrow> real" where
  \<comment> \<open>The spec's corrected distance of query \<open>i\<close> and database vector \<open>j\<close>, over a table
      \<open>yn\<close> of database norms: \<open>\<parallel>a\<parallel>\<^sup>2 + yn j - 2\<langle>a,b\<rangle>\<close>, clamped at zero.\<close>
  "norm_identity_L2sqr x y d yn i j =
     max 0 (fvec_norm_L2sqr (ptr_add x (i * d)) d + yn j
            - 2 * fvec_inner_product (ptr_add x (i * d)) (ptr_add y (j * d)) d)"

definition seen_all :: "(nat \<Rightarrow> real \<Rightarrow> nat \<Rightarrow> bool) \<Rightarrow> recorder \<Rightarrow> bool" where
  "seen_all P h \<longleftrightarrow> (\<forall>(i, dis, j) \<in> set (rec_seen h). P i dis j)"

definition unfiltered :: "bitset_view \<Rightarrow> nat \<Rightarrow> real \<Rightarrow> nat \<Rightarrow> bool" where
  \<comment> \<open>The database position \<open>j\<close> passes the mask.\<close>
  "unfiltered bitset = (\<lambda>i dis j. bv_empty bitset \<or> \<not> bv_test bitset j)"

subsection \<open>Stating what the Elkan assignment computes\<close>

definition tri :: "nat \<Rightarrow> nat" where
  \<comment> \<open>The number of pairs \<open>(a, b)\<close> with \<open>a < b < n\<close>: where row \<open>n\<close> of \<^verbatim>\<open>data\<close> starts.\<close>
  "tri n = n * (n - 1) div 2"

definition brute_step :: "fptr \<Rightarrow> fptr \<Rightarrow> nat \<Rightarrow> nat \<Rightarrow> nat \<times> real \<Rightarrow> nat \<times> real" where
  \<comment> \<open>The body of the loop of \<open>brute_force_nearest\<close>.\<close>
  "brute_step x_i y d = (\<lambda>j (best, dis).
        let disij = fvec_L2sqr x_i (ptr_add y (j * d)) d in
        if disij < dis then (j, disij) else (best, dis))"

definition block_nearest :: "fptr \<Rightarrow> fptr \<Rightarrow> nat \<Rightarrow> nat \<Rightarrow> nat \<Rightarrow> nat \<times> real" where
  \<comment> \<open>The brute-force scan of the database positions \<open>j0 \<le> j < j1\<close>.\<close>
  "block_nearest x_i y d j0 j1 =
     fold (brute_step x_i y d) [j0 + 1..<j1] (j0, fvec_L2sqr x_i (ptr_add y (j0 * d)) d)"

definition elkan_upto :: "fptr \<Rightarrow> fptr \<Rightarrow> nat \<Rightarrow> nat \<Rightarrow> nat \<Rightarrow> fptr \<times> (nat \<Rightarrow> int) \<times> fptr \<Rightarrow> bool" where
  \<comment> \<open>The loop invariant over blocks: once \<open>J > 0\<close> database vectors are done, each
      query holds its brute-force nearest among them.\<close>
  "elkan_upto x y d nx J = (\<lambda>(data, ids, val).
     J = 0 \<or> (\<forall>i<nx. (ids i, val i) =
        (case block_nearest (ptr_add x (i * d)) y d 0 J of (b, v) \<Rightarrow> (int b, v))))"

subsection \<open>Concrete surroundings for running the drivers\<close>

definition single_thread :: platform where
  \<comment> \<open>One OpenMP thread, 1 MiB of last-level cache, fresh memory reading as zero.\<close>
  "single_thread =
     \<lparr>omp_get_max_threads = 1, get_l3_size = 1048576, omp_thread_of = (\<lambda>j. 0),
      uninitialized = (\<lambda>k. 0)\<rparr>"

section \<open>The GPU flat index node (src/index/gpu/flat_gpu/flat_gpu.cc)\<close>

text \<open>
  The member \<^verbatim>\<open>index_\<close> (here \<open>index_ptr\<close>) is a \<^verbatim>\<open>unique_ptr\<close>, \<open>None\<close> when null. The faiss index behind it is
  external: \<open>index_search\<close> and \<open>write_index\<close> stand for \<^verbatim>\<open>faiss::Index::search\<close> and
  \<^verbatim>\<open>faiss::write_index\<close>, with \<open>Inl\<close> the message of a thrown \<^verbatim>\<open>std::exception\<close>.
  A call is observed through the warnings it logs and through either the value it
  returns or the dereference of a null pointer. The statement
  \<^verbatim>\<open>expected<DataSetPtr>::Err(Status::empty_index, "index not loaded");\<close> in the two
  guards builds a value and drops it, so it leaves no trace in the model.
\<close>

datatype status = success | empty_index | faiss_inner_error | not_implemented
  | invalid_binary_set







section \<open>Properties of the kernels\<close>

lemma fvec_inner_product_scale_left:
  "fvec_inner_product (\<lambda>k. c * x k) y d = c * fvec_inner_product x y d"
  by (induction d) (simp_all add: algebra_simps)

lemma fvec_inner_product_scale_right:
  "fvec_inner_product x (\<lambda>k. c * y k) d = c * fvec_inner_product x y d"
  by (induction d) (simp_all add: algebra_simps)

lemma fvec_norm_L2sqr_scale:
  "fvec_norm_L2sqr (\<lambda>k. c * x k) d = c * c * fvec_norm_L2sqr x d"
  by (induction d) (simp_all add: algebra_simps)

lemma fvec_norm_L2sqr_nonneg: "0 \<le> fvec_norm_L2sqr x d"
  by (induction d) simp_all

text \<open>
  C8. The cosine kernel is the inner product divided by the norm of its second operand
  only: for a second operand of nonzero norm, the score is the quotient of the inner
  product by the square root of the second operand's squared norm, rescaling the second
  operand by a positive factor leaves the score unchanged, and rescaling the first
  operand (the query) by \<open>c\<close> multiplies the score by \<open>c\<close>, so the query's norm is never
  divided out.
\<close>

theorem fvec_cosine_normalizes_second_operand_only:
  assumes "fvec_norm_L2sqr y d \<noteq> 0"
  shows "fvec_cosine x y d = fvec_inner_product x y d / sqrt (fvec_norm_L2sqr y d)
    \<and> (0 < c \<longrightarrow> fvec_cosine x (\<lambda>k. c * y k) d = fvec_cosine x y d)
    \<and> fvec_cosine (\<lambda>k. c * x k) y d = c * fvec_cosine x y d"
proof -
  have pos: "0 < sqrt (fvec_norm_L2sqr y d)"
    using assms fvec_norm_L2sqr_nonneg [of y d] by simp
  have scaled: "fvec_cosine x (\<lambda>k. c * y k) d = fvec_cosine x y d" if "0 < c"
  proof -
    have "sqrt (c * c * fvec_norm_L2sqr y d) = c * sqrt (fvec_norm_L2sqr y d)"
      using that by (simp add: real_sqrt_mult)
    then show ?thesis
      using that pos
      by (simp add: fvec_cosine_def fvec_inner_product_scale_right fvec_norm_L2sqr_scale)
  qed
  show ?thesis
    using scaled by (simp add: fvec_cosine_def fvec_inner_product_scale_left)
qed

theorem fvec_cosine_normalizes_second_operand_only_witness:
  "fvec_norm_L2sqr (float_array [0, 2]) 2 \<noteq> 0 \<and> (0::real) < 5
   \<and> fvec_cosine (float_array [3, 4]) (float_array [0, 2]) 2 = 4
   \<and> fvec_cosine (float_array [3, 4]) (\<lambda>k. 5 * float_array [0, 2] k) 2 = 4
   \<and> fvec_cosine (\<lambda>k. 5 * float_array [3, 4] k) (float_array [0, 2]) 2 = 20"
proof -
  have ne: "fvec_norm_L2sqr (float_array [0, 2]) 2 \<noteq> 0"
    by (simp add: float_array_def numeral_2_eq_2)
  have ip: "fvec_inner_product (float_array [3, 4]) (float_array [0, 2]) 2 = 8"
    by (simp add: float_array_def numeral_2_eq_2)
  have nr: "sqrt (fvec_norm_L2sqr (float_array [0, 2]) 2) = 2"
    by (simp add: float_array_def numeral_2_eq_2)
  show ?thesis
    using ne ip nr
      fvec_cosine_normalizes_second_operand_only [OF ne, of "float_array [3, 4]" 5]
    by simp
qed

section \<open>Renormalisation\<close>










section \<open>Choice of the nested-loop strategy\<close>

text \<open>
  C9 (as amended). In \<^verbatim>\<open>exhaustive_L2sqr_IP_seq\<close> the parallel-over-database strategy runs
  if and only if \<open>ny > 65535\<close>, or \<open>nx < thread_count / 2\<close> and \<open>ny \<ge> thread_count * 32\<close>;
  otherwise the parallel-over-queries strategy runs, that is exactly when \<open>ny \<le> 65535\<close>
  and (\<open>nx \<ge> thread_count / 2\<close> or \<open>ny < thread_count * 32\<close>).
\<close>

theorem exhaustive_L2sqr_IP_seq_strategy:
  "(database_parallel (omp_get_max_threads pf) nx ny \<longleftrightarrow>
      65535 < ny \<or> (nx < omp_get_max_threads pf div 2 \<and> omp_get_max_threads pf * 32 \<le> ny))
   \<and> (\<not> database_parallel (omp_get_max_threads pf) nx ny \<longleftrightarrow>
      ny \<le> 65535 \<and> (omp_get_max_threads pf div 2 \<le> nx \<or> ny < omp_get_max_threads pf * 32))
   \<and> exhaustive_L2sqr_IP_seq H pf x y d nx ny res f bitset =
      (if 65535 < ny \<or> (nx < omp_get_max_threads pf div 2 \<and> omp_get_max_threads pf * 32 \<le> ny)
       then exhaustive_parallel_on_ny H pf x y d nx ny res f bitset
       else Inr (exhaustive_parallel_on_nx H x y d nx ny res f bitset))"
  by (auto simp: database_parallel_def parallel_policy_threshold_def
      exhaustive_L2sqr_IP_seq_def Let_def)

theorem exhaustive_L2sqr_IP_seq_strategy_witness:
  "database_parallel 8 3 256 \<and> \<not> database_parallel 8 4 256 \<and> \<not> database_parallel 8 3 255
   \<and> database_parallel 8 100 65536 \<and> \<not> database_parallel 8 100 65535"
proof -
  let ?pf = "\<lparr>omp_get_max_threads = 8, get_l3_size = 0, omp_thread_of = (\<lambda>j. 0),
      uninitialized = (\<lambda>k. 0)\<rparr>"
  note s = exhaustive_L2sqr_IP_seq_strategy [where pf = ?pf and H = recording_handler
      and x = "float_array []" and y = "float_array []" and d = 0
      and res = "rh_new recording_handler 0 1" and f = fvec_L2sqr and bitset = no_bitset]
  show ?thesis
    using s [of 3 256, THEN conjunct1] s [of 4 256, THEN conjunct1]
      s [of 3 255, THEN conjunct1] s [of 100 65536, THEN conjunct1]
      s [of 100 65535, THEN conjunct1]
    by simp
qed

text \<open>
  C9 as stated fails: "parallel-over-queries is chosen exactly when \<open>ny\<close> is at or below
  the threshold or \<open>nx\<close> is not small relative to the thread count". With 4 threads, 100
  queries and 70000 database vectors \<open>nx\<close> is not small, yet the database-parallel
  strategy is the one chosen.
\<close>

theorem parallel_over_queries_counterexample:
  "\<not> ((\<not> database_parallel 4 100 70000) \<longleftrightarrow>
        (70000 \<le> parallel_policy_threshold \<or> \<not> (100::nat) < 4 div 2))"
  by (simp add: database_parallel_def parallel_policy_threshold_def)

section \<open>Running the drivers on small inputs\<close>

lemma fvec_inner_product_numeral:
  "fvec_inner_product x y (numeral n)
     = fvec_inner_product x y (pred_numeral n) + x (pred_numeral n) * y (pred_numeral n)"
  by (simp add: numeral_eq_Suc)

lemma fvec_L2sqr_numeral:
  "fvec_L2sqr x y (numeral n)
     = fvec_L2sqr x y (pred_numeral n)
       + (x (pred_numeral n) - y (pred_numeral n)) * (x (pred_numeral n) - y (pred_numeral n))"
  by (simp add: numeral_eq_Suc)

lemma fvec_norm_L2sqr_numeral:
  "fvec_norm_L2sqr x (numeral n)
     = fvec_norm_L2sqr x (pred_numeral n) + x (pred_numeral n) * x (pred_numeral n)"
  by (simp add: numeral_eq_Suc)

lemma upt_0_numeral: "[0..<numeral n] = [0..<pred_numeral n] @ [pred_numeral n]"
  by (simp add: numeral_eq_Suc)

lemmas kernel_numeral_simps =
  fvec_inner_product_numeral fvec_L2sqr_numeral fvec_norm_L2sqr_numeral upt_0_numeral

lemmas recording_handler_simps =
  recording_handler_def rec_add_def rec_begin_multiple_def rec_add_results_def
  rec_merge_def rec_copy_from_def single_thread_def default_tunables_def no_bitset_def
  float_array_def ptr_add_def Let_def

text \<open>
  C1. The claim is that \<^verbatim>\<open>knn_cosine\<close> scores every candidate with the cosine kernel on
  both sides of the reservoir threshold. The code does not: one query \<open>[1]\<close> against the
  database \<open>[1], [2]\<close> with the default thresholds hands the handler the cosine scores
  \<open>1, 1\<close> for \<open>k = 99\<close>, and the inner products \<open>1, 2\<close> for \<open>k = 100\<close>, where
  the reservoir branch passes \<^verbatim>\<open>fvec_inner_product\<close> to the sequential scan.
\<close>

theorem knn_cosine_reservoir_branch_scores_inner_product:
  "knn_cosine recording_handler recording_handler default_tunables single_thread
     (float_array [1]) (float_array [1, 2]) 1 1 2 \<lparr>ha_nh = 1, ha_k = 99\<rparr> no_bitset
     = Inr \<lparr>rec_k = 99, rec_i0 = 0, rec_i1 = 0, rec_seen = [(0, 1, 0), (0, 1, 1)]\<rparr>
   \<and> knn_cosine recording_handler recording_handler default_tunables single_thread
     (float_array [1]) (float_array [1, 2]) 1 1 2 \<lparr>ha_nh = 1, ha_k = 100\<rparr> no_bitset
     = Inr \<lparr>rec_k = 100, rec_i0 = 0, rec_i1 = 0, rec_seen = [(0, 1, 0), (0, 2, 1)]\<rparr>"
  by (simp add: knn_cosine_def exhaustive_L2sqr_IP_seq_def database_parallel_def
      parallel_policy_threshold_def exhaustive_parallel_on_nx_def fvec_cosine_def
      kernel_numeral_simps recording_handler_simps)

text \<open>
  C2. The claim is that \<^verbatim>\<open>exhaustive_cosine_blas\<close> hands the handler
  \<open>\<langle>x\<^sub>i, y\<^sub>j\<rangle> / \<parallel>y\<^sub>j\<parallel>\<close>. The code fills its norm table from the queries: for the query
  \<open>[3]\<close> and the database vector \<open>[2]\<close> the claim gives \<open>6 / 2 = 3\<close>, and the handler
  receives \<open>6 / 3 = 2\<close>, the inner product over the norm of query \<open>j\<close>.
\<close>

theorem exhaustive_cosine_blas_divides_by_query_norm:
  "exhaustive_cosine_blas recording_handler default_tunables single_thread
     (float_array [3]) (float_array [2]) 1 1 1 (rh_new recording_handler 1 1) no_bitset
     = Inr \<lparr>rec_k = 1, rec_i0 = 0, rec_i1 = 1, rec_seen = [(0, 2, 0)]\<rparr>
   \<and> fvec_inner_product (float_array [3]) (float_array [2]) 1
       / sqrt (fvec_norm_L2sqr (float_array [2]) 1) = 3"
  by (simp add: exhaustive_cosine_blas_def blas_blocks_def block_loop.simps
      cosine_correct_block_def sgemm_def
      fvec_norms_L2_def recording_handler_simps)

text \<open>
  C3. The claim is that no filtered database position reaches a result handler on any
  path. On the jaccard path it does: with position 0 filtered, the query \<open>[1,0,0,0]\<close> and
  the database \<open>[0,1,0,0], [1,1,0,0]\<close>, the handler receives position 0, with the raw
  inner product \<open>0\<close> as its distance, next to position 1 with its jaccard distance
  \<open>1/2\<close>, because \<^verbatim>\<open>knn_jaccard_blas\<close> calls \<^verbatim>\<open>add_results\<close> without the bitset.
\<close>

theorem knn_jaccard_hands_filtered_position_to_handler:
  "knn_jaccard recording_handler single_thread
     (float_array [1, 0, 0, 0]) (float_array [0, 1, 0, 0, 1, 1, 0, 0]) 4 1 2
     \<lparr>ha_nh = 1, ha_k = 1\<rparr> \<lparr>bv_empty = False, bv_test = (\<lambda>j. j = 0)\<rparr>
     = Inr \<lparr>rec_k = 1, rec_i0 = 0, rec_i1 = 1, rec_seen = [(0, 0, 0), (0, 1 / 2, 1)]\<rparr>"
  by (simp add: knn_jaccard_def knn_jaccard_blas_def blas_blocks_def block_loop.simps
      jaccard_correct_block_def sgemm_def
      fvec_norms_L2sqr_def NopDistanceCorrection_def kernel_numeral_simps
      recording_handler_simps)

section \<open>The tiles of the BLAS-backed drivers\<close>

lemma upt_diff: "[j0..<j1] = [j0..<j0 + (j1 - j0)]"
  by (cases "j0 \<le> j1") simp_all

lemma row_fold_closed:
  "fold (\<lambda>j blk. blk(b + (j - j0) := g j (blk (b + (j - j0))))) [j0..<j0 + m] (blk::fptr)
     = (\<lambda>p. if b \<le> p \<and> p < b + m then g (j0 + (p - b)) (blk p) else blk p)"
proof (induction m)
  case 0
  then show ?case by (auto simp: fun_eq_iff)
next
  case (Suc m)
  let ?F = "\<lambda>j (blk::fptr). blk(b + (j - j0) := g j (blk (b + (j - j0))))"
  let ?c = "\<lambda>m p. if b \<le> p \<and> p < b + m then g (j0 + (p - b)) (blk p) else blk p"
  have "fold ?F [j0..<j0 + Suc m] blk = ?F (j0 + m) (fold ?F [j0..<j0 + m] blk)"
    by simp
  also have "\<dots> = ?F (j0 + m) (?c m)"
    by (simp only: Suc)
  also have "\<dots> = ?c (Suc m)"
    by (auto simp: fun_eq_iff)
  finally show ?case .
qed

lemma tile_fold_closed:
  "fold (\<lambda>i blk. fold (\<lambda>j blk. blk((i - i0) * n + (j - j0) := g i j (blk ((i - i0) * n + (j - j0)))))
        [j0..<j0 + n] blk) [i0..<i0 + m] (blk::fptr)
     = (\<lambda>p. if p < m * n then g (i0 + p div n) (j0 + p mod n) (blk p) else blk p)"
proof (induction m)
  case 0
  then show ?case by simp
next
  case (Suc m)
  let ?R = "\<lambda>i (blk::fptr). fold (\<lambda>j blk. blk((i - i0) * n + (j - j0) := g i j (blk ((i - i0) * n + (j - j0)))))
        [j0..<j0 + n] blk"
  let ?c = "\<lambda>m p. if p < m * n then g (i0 + p div n) (j0 + p mod n) (blk p) else blk p"
  have "fold ?R [i0..<i0 + Suc m] blk = ?R (i0 + m) (fold ?R [i0..<i0 + m] blk)"
    by simp
  also have "\<dots> = ?R (i0 + m) (?c m)"
    by (simp only: Suc)
  also have "\<dots> = (\<lambda>p. if m * n \<le> p \<and> p < m * n + n
        then g (i0 + m) (j0 + (p - m * n)) (?c m p) else ?c m p)"
    using row_fold_closed [of "m * n" j0 "g (i0 + m)" n "?c m"] by simp
  also have "\<dots> = ?c (Suc m)"
  proof (rule ext)
    fix p
    consider "p < m * n" | "m * n \<le> p" "p < m * n + n" | "m * n + n \<le> p" by linarith
    then show "(if m * n \<le> p \<and> p < m * n + n
        then g (i0 + m) (j0 + (p - m * n)) (?c m p) else ?c m p) = ?c (Suc m) p"
    proof cases
      case 1
      then show ?thesis by simp
    next
      case 2
      then have "p div n = m"
        by (metis add.commute div_nat_eqI mult.commute mult_Suc_right)
      moreover from this have "p mod n = p - m * n"
        by (metis add_diff_cancel_left' mult.commute mult_div_mod_eq)
      ultimately show ?thesis using 2 by simp
    next
      case 3
      then show ?thesis by simp
    qed
  qed
  finally show ?case .
qed

lemma tile_index:
  assumes "r < n"
  shows "(q * n + r) div n = (q::nat)" "(q * n + r) mod n = r"
  using assms by simp_all

lemma tile_fold_entry:
  assumes "i0 \<le> i" "i < i1" "j0 \<le> j" "j < j1"
  shows "fold (\<lambda>i blk. fold (\<lambda>j blk.
             blk((i - i0) * (j1 - j0) + (j - j0) := g i j (blk ((i - i0) * (j1 - j0) + (j - j0)))))
           [j0..<j1] blk) [i0..<i1] (blk::fptr) ((i - i0) * (j1 - j0) + (j - j0))
     = g i j (blk ((i - i0) * (j1 - j0) + (j - j0)))"
proof -
  let ?n = "j1 - j0"
  let ?p = "(i - i0) * ?n + (j - j0)"
  have lt: "?p < (i1 - i0) * ?n"
  proof -
    have "?p < Suc (i - i0) * ?n" using assms by simp
    also have "\<dots> \<le> (i1 - i0) * ?n" using assms by (intro mult_le_mono1) simp
    finally show ?thesis .
  qed
  have "j - j0 < ?n"
    using assms by linarith
  then have dm: "?p div ?n = i - i0" "?p mod ?n = j - j0"
    by (rule tile_index)+
  show ?thesis
    apply (subst upt_diff [of j0 j1])
    apply (subst upt_diff [of i0 i1])
    apply (subst tile_fold_closed)
    using lt dm assms apply simp
    done
qed

lemma fvec_norms_L2sqr_entry:
  "fvec_norms_L2sqr nr x d nx i
     = (if i < nx then fvec_norm_L2sqr (ptr_add x (i * d)) d else nr i)"
  unfolding fvec_norms_L2sqr_def by (induction nx) auto

lemma fvec_norms_L2_entry:
  "fvec_norms_L2 nr x d nx i
     = (if i < nx then sqrt (fvec_norm_L2sqr (ptr_add x (i * d)) d) else nr i)"
  unfolding fvec_norms_L2_def by (induction nx) auto

lemma sgemm_entry:
  assumes "i0 \<le> i" "i < i1" "j0 \<le> j" "j < j1"
  shows "sgemm (j1 - j0) (i1 - i0) d (ptr_add y (j0 * d)) (ptr_add x (i0 * d)) c
           ((i - i0) * (j1 - j0) + (j - j0))
     = fvec_inner_product (ptr_add x (i * d)) (ptr_add y (j * d)) d"
proof -
  let ?n = "j1 - j0"
  let ?p = "(i - i0) * ?n + (j - j0)"
  have lt: "?p < ?n * (i1 - i0)"
  proof -
    have "?p < Suc (i - i0) * ?n" using assms by simp
    also have "\<dots> \<le> (i1 - i0) * ?n" using assms by (intro mult_le_mono1) simp
    finally show ?thesis by (simp add: mult.commute)
  qed
  have "j - j0 < ?n"
    using assms by linarith
  then have dm: "?p div ?n = i - i0" "?p mod ?n = j - j0"
    by (rule tile_index)+
  have px: "ptr_add (ptr_add x (i0 * d)) ((i - i0) * d) = ptr_add x (i * d)"
    using assms by (simp add: ptr_add_def fun_eq_iff add.assoc [symmetric] add_mult_distrib [symmetric])
  have py: "ptr_add (ptr_add y (j0 * d)) ((j - j0) * d) = ptr_add y (j * d)"
    using assms by (simp add: ptr_add_def fun_eq_iff add.assoc [symmetric] add_mult_distrib [symmetric])
  show ?thesis
    unfolding sgemm_def using lt dm px py by simp
qed


lemma block_loop_done: "\<not> i0 < n \<Longrightarrow> block_loop bs n body i0 s = Inr s"
  by (subst block_loop.simps) simp

lemma block_loop_stuck: "i0 < n \<Longrightarrow> block_loop 0 n body i0 s = Inl NeverReturns"
  by (subst block_loop.simps) simp

lemma block_loop_step:
  "i0 < n \<Longrightarrow> bs \<noteq> 0 \<Longrightarrow>
   block_loop bs n body i0 s =
     (case body i0 (if i0 + bs > n then n else i0 + bs) s of
        Inl e \<Rightarrow> Inl e
      | Inr s' \<Rightarrow> block_loop bs n body (i0 + bs) s')"
  by (subst block_loop.simps) (simp add: Let_def)

lemma block_loop_invariant:
  assumes "block_loop bs n body i0 s = Inr s'"
    and "P s"
    and "\<And>j0 j1 s s'. P s \<Longrightarrow> j0 < n \<Longrightarrow> j0 \<le> j1 \<Longrightarrow> j1 \<le> n \<Longrightarrow> body j0 j1 s = Inr s' \<Longrightarrow> P s'"
  shows "P s'"
  using assms
proof (induction bs n body i0 s rule: block_loop.induct)
  case (1 bs n body i0 s)
  show ?case
  proof (cases "i0 < n")
    case False
    with "1.prems" show ?thesis by (simp add: block_loop_done)
  next
    case True
    have bs: "bs \<noteq> 0"
    proof
      assume "bs = 0"
      then show False
        using "1.prems"(1) block_loop_stuck [OF True, of body s] by simp
    qed
    define i1 where "i1 = (if i0 + bs > n then n else i0 + bs)"
    from "1.prems"(1) obtain s1 where
      body: "body i0 i1 s = Inr s1" and rest: "block_loop bs n body (i0 + bs) s1 = Inr s'"
      unfolding block_loop_step [OF True bs] i1_def by (auto split: sum.splits)
    have "P s1"
      using "1.prems"(3) [OF "1.prems"(2) True _ _ body] True by (simp add: i1_def)
    then show ?thesis
      using "1.IH" [OF True bs i1_def body rest] "1.prems"(3) by blast
  qed
qed

lemma block_loop_invariant_upto:
  assumes "block_loop bs n body i0 s = Inr s'"
    and "Q (min n i0) s"
    and "\<And>j0 j1 s s'. Q j0 s \<Longrightarrow> j0 < n \<Longrightarrow> j0 < j1 \<Longrightarrow> j1 \<le> n
           \<Longrightarrow> body j0 j1 s = Inr s' \<Longrightarrow> Q j1 s'"
  shows "Q n s'"
  using assms
proof (induction bs n body i0 s rule: block_loop.induct)
  case (1 bs n body i0 s)
  show ?case
  proof (cases "i0 < n")
    case False
    then have "min n i0 = n" by simp
    with "1.prems" False show ?thesis by (simp add: block_loop_done)
  next
    case True
    have bs: "bs \<noteq> 0"
    proof
      assume "bs = 0"
      then show False
        using "1.prems"(1) block_loop_stuck [OF True, of body s] by simp
    qed
    define i1 where "i1 = (if i0 + bs > n then n else i0 + bs)"
    from "1.prems"(1) obtain s1 where
      body: "body i0 i1 s = Inr s1" and rest: "block_loop bs n body (i0 + bs) s1 = Inr s'"
      unfolding block_loop_step [OF True bs] i1_def by (auto split: sum.splits)
    have i1: "i0 < i1" "i1 \<le> n" "min n (i0 + bs) = i1"
      using True bs by (auto simp: i1_def)
    have "Q i0 s" using "1.prems"(2) True by (simp add: min_def)
    then have "Q i1 s1"
      using "1.prems"(3) [OF _ True i1(1,2) body] by simp
    then have "Q (min n (i0 + bs)) s1" by (simp only: i1(3))
    then show ?thesis
      using "1.IH" [OF True bs i1_def body rest] "1.prems"(3) by blast
  qed
qed

lemma block_loop_returns:
  assumes "0 < bs" and "\<And>j0 j1 s. \<exists>s'. body j0 j1 s = Inr s'"
  shows "\<exists>s'. block_loop bs n body i0 s = Inr s'"
  using assms
proof (induction bs n body i0 s rule: block_loop.induct)
  case (1 bs n body i0 s)
  show ?case
  proof (cases "i0 < n")
    case False
    then show ?thesis by (simp add: block_loop_done)
  next
    case True
    define i1 where "i1 = (if i0 + bs > n then n else i0 + bs)"
    obtain s1 where body: "body i0 i1 s = Inr s1"
      using "1.prems"(2) by blast
    have bs: "bs \<noteq> 0" using "1.prems"(1) by simp
    have "\<exists>s'. block_loop bs n body (i0 + bs) s1 = Inr s'"
      using "1.IH" [OF True bs i1_def body "1.prems"(1)] "1.prems"(2) by blast
    then show ?thesis
      using body unfolding block_loop_step [OF True bs] i1_def by simp
  qed
qed

lemma L2sqr_correct_block_entry:
  assumes "i0 \<le> i" "i < i1" "j0 \<le> j" "j < j1"
  shows "L2sqr_correct_block xn yn i0 i1 j0 j1 blk ((i - i0) * (j1 - j0) + (j - j0))
     = max 0 (xn i + yn j - 2 * blk ((i - i0) * (j1 - j0) + (j - j0)))"
  unfolding L2sqr_correct_block_def Let_def
  using tile_fold_entry [OF assms,
      of "\<lambda>i j v. if xn i + yn j - 2 * v < 0 then 0 else xn i + yn j - 2 * v" blk]
  by (simp add: max_def not_less)

lemma seen_all_begin_multiple:
  "seen_all P h \<Longrightarrow> seen_all P (rec_begin_multiple i0 i1 h)"
  by (auto simp: seen_all_def rec_begin_multiple_def)

lemma seen_all_add_results:
  assumes "seen_all P h"
    and "\<And>i j. rec_i0 h \<le> i \<Longrightarrow> i < rec_i1 h \<Longrightarrow> j0 \<le> j \<Longrightarrow> j < j1
           \<Longrightarrow> bv_empty bitset \<or> \<not> bv_test bitset j
           \<Longrightarrow> P i (dis_tab ((i - rec_i0 h) * (j1 - j0) + (j - j0))) j"
  shows "seen_all P (rec_add_results j0 j1 dis_tab bitset h)"
  using assms by (auto simp: seen_all_def rec_add_results_def)

lemma rec_add_results_block [simp]:
  "rec_i0 (rec_add_results j0 j1 dis_tab bitset h) = rec_i0 h"
  "rec_i1 (rec_add_results j0 j1 dis_tab bitset h) = rec_i1 h"
  by (simp_all add: rec_add_results_def)

lemma rec_begin_multiple_block [simp]:
  "rec_i0 (rec_begin_multiple i0 i1 h) = i0"
  "rec_i1 (rec_begin_multiple i0 i1 h) = i1"
  by (simp_all add: rec_begin_multiple_def)

lemma recording_handler_sel [simp]:
  "rh_begin_multiple recording_handler = rec_begin_multiple"
  "rh_add_results recording_handler = rec_add_results"
  "rh_end_multiple recording_handler = (\<lambda>h. h)"
  "rh_new recording_handler nh k = \<lparr>rec_k = k, rec_i0 = 0, rec_i1 = 0, rec_seen = []\<rparr>"
  by (simp_all add: recording_handler_def)

lemma blas_blocks_returns:
  assumes "0 < bs_x" "0 < bs_y"
  shows "\<exists>h. blas_blocks H bs_x bs_y x y d nx ny correct passed ip_block res = Inr h"
proof -
  have "\<exists>s'. block_loop bs_x nx (\<lambda>i0 i1 (ip_block, res).
           map_sum id (\<lambda>(ip_block, res). (ip_block, rh_end_multiple H res))
             (block_loop bs_y ny (\<lambda>j0 j1 (ip_block, res).
                 let ip_block = sgemm (j1 - j0) (i1 - i0) d
                                  (ptr_add y (j0 * d)) (ptr_add x (i0 * d)) ip_block;
                     ip_block = correct i0 i1 j0 j1 ip_block
                 in Inr (ip_block, rh_add_results H j0 j1 ip_block passed res))
                0 (ip_block, rh_begin_multiple H i0 i1 res)))
          0 (ip_block, res) = Inr s'"
  proof (rule block_loop_returns [OF assms(1)])
    fix i0 i1 and s :: "fptr \<times> 'a"
    obtain b r where s: "s = (b, r)" by (cases s)
    have "\<exists>s'. block_loop bs_y ny (\<lambda>j0 j1 (ip_block, res).
                 let ip_block = sgemm (j1 - j0) (i1 - i0) d
                                  (ptr_add y (j0 * d)) (ptr_add x (i0 * d)) ip_block;
                     ip_block = correct i0 i1 j0 j1 ip_block
                 in Inr (ip_block, rh_add_results H j0 j1 ip_block passed res))
                0 (b, rh_begin_multiple H i0 i1 r) = Inr s'"
      by (rule block_loop_returns [OF assms(2)]) (simp add: Let_def case_prod_beta)
    then show "\<exists>s'. (case s of (ip_block, res) \<Rightarrow>
           map_sum id (\<lambda>(ip_block, res). (ip_block, rh_end_multiple H res))
             (block_loop bs_y ny (\<lambda>j0 j1 (ip_block, res).
                 let ip_block = sgemm (j1 - j0) (i1 - i0) d
                                  (ptr_add y (j0 * d)) (ptr_add x (i0 * d)) ip_block;
                     ip_block = correct i0 i1 j0 j1 ip_block
                 in Inr (ip_block, rh_add_results H j0 j1 ip_block passed res))
                0 (ip_block, rh_begin_multiple H i0 i1 res))) = Inr s'"
      unfolding s by auto
  qed
  then show ?thesis
    unfolding blas_blocks_def by auto
qed

text \<open>What a recording handler has seen after the loop nest.\<close>

lemma blas_blocks_seen_all:
  assumes run: "blas_blocks recording_handler bs_x bs_y x y d nx ny correct passed blk res = Inr res'"
    and init: "seen_all P res"
    and tile: "\<And>i0 i1 j0 j1 i j blk. i0 \<le> i \<Longrightarrow> i < i1 \<Longrightarrow> i1 \<le> nx \<Longrightarrow> j0 \<le> j \<Longrightarrow> j < j1
        \<Longrightarrow> j1 \<le> ny \<Longrightarrow> bv_empty passed \<or> \<not> bv_test passed j
        \<Longrightarrow> P i (correct i0 i1 j0 j1
                   (sgemm (j1 - j0) (i1 - i0) d (ptr_add y (j0 * d)) (ptr_add x (i0 * d)) blk)
                   ((i - i0) * (j1 - j0) + (j - j0))) j"
  shows "seen_all P res'"
proof -
  define inner where "inner = (\<lambda>i0 i1 j0 j1 (ip_block :: fptr, res).
       let ip_block = sgemm (j1 - j0) (i1 - i0) d
                        (ptr_add y (j0 * d)) (ptr_add x (i0 * d)) ip_block;
           ip_block = correct i0 i1 j0 j1 ip_block
       in (Inr (ip_block, rec_add_results j0 j1 ip_block passed res) :: fault + fptr \<times> recorder))"
  define outer where "outer = (\<lambda>i0 i1 (ip_block :: fptr, res).
       map_sum id (\<lambda>(ip_block :: fptr, res :: recorder). (ip_block, res))
         (block_loop bs_y ny (inner i0 i1) 0 (ip_block, rec_begin_multiple i0 i1 res)))"
  from run obtain st where st: "block_loop bs_x nx outer 0 (blk, res) = Inr st"
    and res': "res' = snd st"
    unfolding blas_blocks_def outer_def inner_def
    by (auto simp: map_sum_def split: sum.splits)
  have "(\<lambda>(b, r). seen_all P r) st"
  proof (rule block_loop_invariant [OF st])
    show "(\<lambda>(b, r). seen_all P r) (blk, res)"
      using init by simp
  next
    fix i0 i1 s s'
    assume s: "(\<lambda>(b, r). seen_all P r) s" and i: "i0 < nx" "i0 \<le> i1" "i1 \<le> nx"
      and body: "outer i0 i1 s = Inr s'"
    obtain b r where sbr: "s = (b, r)" by (cases s)
    from body obtain s2 where
      inner: "block_loop bs_y ny (inner i0 i1) 0 (b, rec_begin_multiple i0 i1 r) = Inr s2"
      and s': "s' = s2"
      unfolding sbr outer_def
      by (cases "block_loop bs_y ny (inner i0 i1) 0 (b, rec_begin_multiple i0 i1 r)")
        (auto simp: case_prod_beta)
    have "(\<lambda>(b, r). seen_all P r \<and> rec_i0 r = i0 \<and> rec_i1 r = i1) s2"
    proof (rule block_loop_invariant [OF inner])
      show "(\<lambda>(b, r). seen_all P r \<and> rec_i0 r = i0 \<and> rec_i1 r = i1)
              (b, rec_begin_multiple i0 i1 r)"
        using s sbr by (simp add: seen_all_begin_multiple)
    next
      fix j0 j1 t t'
      assume t: "(\<lambda>(b, r). seen_all P r \<and> rec_i0 r = i0 \<and> rec_i1 r = i1) t"
        and j: "j0 < ny" "j0 \<le> j1" "j1 \<le> ny"
        and step: "inner i0 i1 j0 j1 t = Inr t'"
      obtain tb tr where tbr: "t = (tb, tr)" by (cases t)
      define tl where "tl = correct i0 i1 j0 j1
           (sgemm (j1 - j0) (i1 - i0) d (ptr_add y (j0 * d)) (ptr_add x (i0 * d)) tb)"
      from step have t': "t' = (tl, rec_add_results j0 j1 tl passed tr)"
        unfolding tbr inner_def tl_def by (simp add: Let_def)
      have "seen_all P (rec_add_results j0 j1 tl passed tr)"
      proof (rule seen_all_add_results)
        show "seen_all P tr" using t tbr by simp
      next
        fix i j
        assume "rec_i0 tr \<le> i" "i < rec_i1 tr" "j0 \<le> j" "j < j1"
          "bv_empty passed \<or> \<not> bv_test passed j"
        then show "P i (tl ((i - rec_i0 tr) * (j1 - j0) + (j - j0))) j"
          using t tbr i j tile [of i0 i i1 j0 j j1 tb] unfolding tl_def by simp
      qed
      then show "(\<lambda>(b, r). seen_all P r \<and> rec_i0 r = i0 \<and> rec_i1 r = i1) t'"
        using t tbr t' by simp
    qed
    then show "(\<lambda>(b, r). seen_all P r) s'"
      using s' by (simp add: case_prod_beta)
  qed
  then show ?thesis
    using res' by (simp add: case_prod_beta)
qed

lemma rec_add_results_seen:
  "set (rec_seen (rec_add_results j0 j1 dis_tab bitset h)) =
     set (rec_seen h) \<union>
     {(i, dis_tab ((i - rec_i0 h) * (j1 - j0) + (j - j0)), j) | i j.
        rec_i0 h \<le> i \<and> i < rec_i1 h \<and> j0 \<le> j \<and> j < j1
        \<and> (bv_empty bitset \<or> \<not> bv_test bitset j)}"
  by (auto simp: rec_add_results_def)

lemma rec_begin_multiple_keeps:
  "i < i0 \<Longrightarrow> (i, dis, j) \<in> set (rec_seen h)
     \<Longrightarrow> (i, dis, j) \<in> set (rec_seen (rec_begin_multiple i0 i1 h))"
  by (simp add: rec_begin_multiple_def)

text \<open>
  The loop nest hands over every pair of a query and a database position that passes the
  mask given to \<^verbatim>\<open>add_results\<close>, with the corrected entry of its tile.
\<close>

lemma blas_blocks_covers:
  assumes run: "blas_blocks recording_handler bs_x bs_y x y d nx ny correct passed blk res = Inr res'"
    and tile: "\<And>i0 i1 j0 j1 i j blk. i0 \<le> i \<Longrightarrow> i < i1 \<Longrightarrow> i1 \<le> nx \<Longrightarrow> j0 \<le> j \<Longrightarrow> j < j1
        \<Longrightarrow> j1 \<le> ny \<Longrightarrow> bv_empty passed \<or> \<not> bv_test passed j
        \<Longrightarrow> correct i0 i1 j0 j1
                   (sgemm (j1 - j0) (i1 - i0) d (ptr_add y (j0 * d)) (ptr_add x (i0 * d)) blk)
                   ((i - i0) * (j1 - j0) + (j - j0)) = F i j"
    and ij: "i < nx" "j < ny" "bv_empty passed \<or> \<not> bv_test passed j"
  shows "(i, F i j, j) \<in> set (rec_seen res')"
proof -
  define inner where "inner = (\<lambda>i0 i1 j0 j1 (ip_block :: fptr, res).
       let ip_block = sgemm (j1 - j0) (i1 - i0) d
                        (ptr_add y (j0 * d)) (ptr_add x (i0 * d)) ip_block;
           ip_block = correct i0 i1 j0 j1 ip_block
       in (Inr (ip_block, rec_add_results j0 j1 ip_block passed res) :: fault + fptr \<times> recorder))"
  define outer where "outer = (\<lambda>i0 i1 (ip_block :: fptr, res).
       map_sum id (\<lambda>(ip_block :: fptr, res :: recorder). (ip_block, res))
         (block_loop bs_y ny (inner i0 i1) 0 (ip_block, rec_begin_multiple i0 i1 res)))"
  define has where "has = (\<lambda>(r :: recorder) i j.
       (bv_empty passed \<or> \<not> bv_test passed j) \<longrightarrow> (i, F i j, j) \<in> set (rec_seen r))"
  define Q where "Q = (\<lambda>I (b :: fptr, r). \<forall>i<I. \<forall>j<ny. has r i j)"
  from run obtain st where st: "block_loop bs_x nx outer 0 (blk, res) = Inr st"
    and res': "res' = snd st"
    unfolding blas_blocks_def outer_def inner_def
    by (auto simp: map_sum_def split: sum.splits)
  have "Q nx st"
  proof (rule block_loop_invariant_upto [OF st])
    show "Q (min nx 0) (blk, res)"
      by (simp add: Q_def)
  next
    fix i0 i1 s s'
    assume s: "Q i0 s" and i: "i0 < nx" "i0 < i1" "i1 \<le> nx"
      and body: "outer i0 i1 s = Inr s'"
    obtain b r where sbr: "s = (b, r)" by (cases s)
    from body obtain s2 where
      inner: "block_loop bs_y ny (inner i0 i1) 0 (b, rec_begin_multiple i0 i1 r) = Inr s2"
      and s': "s' = s2"
      unfolding sbr outer_def
      by (cases "block_loop bs_y ny (inner i0 i1) 0 (b, rec_begin_multiple i0 i1 r)")
        (auto simp: case_prod_beta)
    define R where "R = (\<lambda>J (b :: fptr, r).
        rec_i0 r = i0 \<and> rec_i1 r = i1
        \<and> (\<forall>i<i0. \<forall>j<ny. has r i j)
        \<and> (\<forall>i. i0 \<le> i \<and> i < i1 \<longrightarrow> (\<forall>j<J. has r i j)))"
    have "R ny s2"
    proof (rule block_loop_invariant_upto [OF inner])
      show "R (min ny 0) (b, rec_begin_multiple i0 i1 r)"
        using s sbr
        by (auto simp: R_def Q_def has_def intro: rec_begin_multiple_keeps)
    next
      fix j0 j1 t t'
      assume t: "R j0 t" and j: "j0 < ny" "j0 < j1" "j1 \<le> ny"
        and step: "inner i0 i1 j0 j1 t = Inr t'"
      obtain tb tr where tbr: "t = (tb, tr)" by (cases t)
      define tl where "tl = correct i0 i1 j0 j1
           (sgemm (j1 - j0) (i1 - i0) d (ptr_add y (j0 * d)) (ptr_add x (i0 * d)) tb)"
      from step have t': "t' = (tl, rec_add_results j0 j1 tl passed tr)"
        unfolding tbr inner_def tl_def by (simp add: Let_def)
      have blk: "rec_i0 tr = i0" "rec_i1 tr = i1"
        using t tbr by (simp_all add: R_def)
      have old: "has (rec_add_results j0 j1 tl passed tr) i' j'" if "has tr i' j'" for i' j'
        using that by (auto simp: has_def rec_add_results_seen)
      have new: "has (rec_add_results j0 j1 tl passed tr) i' j'"
        if "i0 \<le> i'" "i' < i1" "j0 \<le> j'" "j' < j1" for i' j'
      proof -
        have "(i', tl ((i' - i0) * (j1 - j0) + (j' - j0)), j')
              \<in> set (rec_seen (rec_add_results j0 j1 tl passed tr))"
          if "bv_empty passed \<or> \<not> bv_test passed j'"
          unfolding rec_add_results_seen blk using that \<open>i0 \<le> i'\<close> \<open>i' < i1\<close> \<open>j0 \<le> j'\<close> \<open>j' < j1\<close>
          by blast
        moreover have "tl ((i' - i0) * (j1 - j0) + (j' - j0)) = F i' j'"
          if "bv_empty passed \<or> \<not> bv_test passed j'"
          unfolding tl_def using that \<open>i0 \<le> i'\<close> \<open>i' < i1\<close> \<open>j0 \<le> j'\<close> \<open>j' < j1\<close> i(3) j(3)
          by (intro tile)
        ultimately show ?thesis
          by (auto simp: has_def)
      qed
      have "\<forall>i'. i0 \<le> i' \<and> i' < i1 \<longrightarrow>
              (\<forall>j'<j1. has (rec_add_results j0 j1 tl passed tr) i' j')"
      proof (intro allI impI)
        fix i' j' assume i': "i0 \<le> i' \<and> i' < i1" and j': "j' < j1"
        show "has (rec_add_results j0 j1 tl passed tr) i' j'"
        proof (cases "j' < j0")
          case True
          then have "has tr i' j'" using t tbr i' by (simp add: R_def)
          then show ?thesis by (rule old)
        next
          case False
          then show ?thesis using i' j' by (intro new) simp_all
        qed
      qed
      moreover have "\<forall>i'<i0. \<forall>j'<ny. has (rec_add_results j0 j1 tl passed tr) i' j'"
        using t tbr old by (simp add: R_def)
      ultimately show "R j1 t'"
        unfolding t' R_def using blk by simp
    qed
    moreover obtain b2 r2 where s2: "s2 = (b2, r2)" by (cases s2)
    ultimately have lo: "\<forall>i<i0. \<forall>j<ny. has r2 i j"
      and hi: "\<forall>i. i0 \<le> i \<and> i < i1 \<longrightarrow> (\<forall>j<ny. has r2 i j)"
      by (simp_all add: R_def)
    have "has r2 i' j'" if "i' < i1" "j' < ny" for i' j'
    proof (cases "i' < i0")
      case True
      then show ?thesis using lo that by blast
    next
      case False
      then have "i0 \<le> i' \<and> i' < i1" using that by simp
      then show ?thesis using hi that by blast
    qed
    then show "Q i1 s'"
      unfolding s' s2 Q_def by simp
  qed
  then show ?thesis
    using ij res' by (cases st) (auto simp: Q_def has_def)
qed

lemma L2sqr_tile_entry:
  assumes b: "i0 \<le> i" "i < i1" "i1 \<le> nx" "j0 \<le> j" "j < j1" "j1 \<le> ny"
  shows "L2sqr_correct_block (fvec_norms_L2sqr nr x d nx)
           (case y_norms of None \<Rightarrow> fvec_norms_L2sqr nr' y d ny | Some given \<Rightarrow> given)
           i0 i1 j0 j1
           (sgemm (j1 - j0) (i1 - i0) d (ptr_add y (j0 * d)) (ptr_add x (i0 * d)) blk)
           ((i - i0) * (j1 - j0) + (j - j0))
     = norm_identity_L2sqr x y d (y_norms_used y d y_norms) i j"
proof -
  let ?xn = "fvec_norms_L2sqr nr x d nx"
  let ?yn = "case y_norms of None \<Rightarrow> fvec_norms_L2sqr nr' y d ny | Some given \<Rightarrow> given"
  let ?p = "(i - i0) * (j1 - j0) + (j - j0)"
  let ?ip = "sgemm (j1 - j0) (i1 - i0) d (ptr_add y (j0 * d)) (ptr_add x (i0 * d)) blk"
  have lt: "i < nx" "j < ny" using b by simp_all
  have xn: "?xn i = fvec_norm_L2sqr (ptr_add x (i * d)) d"
    using lt by (simp add: fvec_norms_L2sqr_entry)
  have yn: "?yn j = y_norms_used y d y_norms j"
    using lt by (cases y_norms) (simp_all add: y_norms_used_def fvec_norms_L2sqr_entry)
  have e1: "L2sqr_correct_block ?xn ?yn i0 i1 j0 j1 ?ip ?p = max 0 (?xn i + ?yn j - 2 * ?ip ?p)"
    using b by (intro L2sqr_correct_block_entry)
  have e2: "?ip ?p = fvec_inner_product (ptr_add x (i * d)) (ptr_add y (j * d)) d"
    using b by (intro sgemm_entry)
  show ?thesis
    unfolding e1 e2 xn yn norm_identity_L2sqr_def ..
qed

lemma exhaustive_L2sqr_blas_seen:
  assumes run: "exhaustive_L2sqr_blas recording_handler tn pf x y d nx ny
                  (rh_new recording_handler nh k) y_norms bitset = Inr h"
  shows "seen_all (\<lambda>i dis j. i < nx \<and> j < ny
           \<and> dis = norm_identity_L2sqr x y d (y_norms_used y d y_norms) i j) h"
proof (cases "nx = 0 \<or> ny = 0")
  case True
  with run show ?thesis
    by (auto simp: exhaustive_L2sqr_blas_def seen_all_def)
next
  case False
  from run False have run':
    "blas_blocks recording_handler (distance_compute_blas_query_bs tn)
       (distance_compute_blas_database_bs tn) x y d nx ny
       (L2sqr_correct_block (fvec_norms_L2sqr (uninitialized pf) x d nx)
          (case y_norms of None \<Rightarrow> fvec_norms_L2sqr (uninitialized pf) y d ny
           | Some given \<Rightarrow> given))
       bitset (uninitialized pf) (rh_new recording_handler nh k) = Inr h"
    by (simp add: exhaustive_L2sqr_blas_def Let_def)
  show ?thesis
  proof (rule blas_blocks_seen_all [OF run'])
    show "seen_all (\<lambda>i dis j. i < nx \<and> j < ny
           \<and> dis = norm_identity_L2sqr x y d (y_norms_used y d y_norms) i j)
            (rh_new recording_handler nh k)"
      by (simp add: seen_all_def)
  next
    fix i0 i1 j0 j1 i j blk
    assume b: "i0 \<le> i" "i < i1" "i1 \<le> nx" "j0 \<le> j" "j < j1" "j1 \<le> ny"
    then have "i < nx" "j < ny" by simp_all
    then show "i < nx \<and> j < ny \<and>
       L2sqr_correct_block (fvec_norms_L2sqr (uninitialized pf) x d nx)
          (case y_norms of None \<Rightarrow> fvec_norms_L2sqr (uninitialized pf) y d ny
           | Some given \<Rightarrow> given) i0 i1 j0 j1
         (sgemm (j1 - j0) (i1 - i0) d (ptr_add y (j0 * d)) (ptr_add x (i0 * d)) blk)
         ((i - i0) * (j1 - j0) + (j - j0))
       = norm_identity_L2sqr x y d (y_norms_used y d y_norms) i j"
      using L2sqr_tile_entry [OF b] by blast
  qed
qed

lemma exhaustive_L2sqr_blas_covers:
  assumes run: "exhaustive_L2sqr_blas recording_handler tn pf x y d nx ny
                  (rh_new recording_handler nh k) y_norms bitset = Inr h"
    and ij: "i < nx" "j < ny" "bv_empty bitset \<or> \<not> bv_test bitset j"
  shows "(i, norm_identity_L2sqr x y d (y_norms_used y d y_norms) i j, j) \<in> set (rec_seen h)"
proof -
  have nz: "\<not> (nx = 0 \<or> ny = 0)" using ij by simp
  from run nz have run':
    "blas_blocks recording_handler (distance_compute_blas_query_bs tn)
       (distance_compute_blas_database_bs tn) x y d nx ny
       (L2sqr_correct_block (fvec_norms_L2sqr (uninitialized pf) x d nx)
          (case y_norms of None \<Rightarrow> fvec_norms_L2sqr (uninitialized pf) y d ny
           | Some given \<Rightarrow> given))
       bitset (uninitialized pf) (rh_new recording_handler nh k) = Inr h"
    by (simp add: exhaustive_L2sqr_blas_def Let_def)
  show ?thesis
    by (rule blas_blocks_covers [OF run' _ ij]) (rule L2sqr_tile_entry)
qed


section \<open>The BLAS-backed L2 driver\<close>

lemma exhaustive_L2sqr_blas_returns:
  assumes "0 < distance_compute_blas_query_bs tn" "0 < distance_compute_blas_database_bs tn"
  shows "\<exists>h. exhaustive_L2sqr_blas H tn pf x y d nx ny res y_norms bitset = Inr h"
proof (cases "nx = 0 \<or> ny = 0")
  case True
  then show ?thesis by (simp add: exhaustive_L2sqr_blas_def)
next
  case False
  then show ?thesis
    unfolding exhaustive_L2sqr_blas_def Let_def
    using blas_blocks_returns [OF assms] by simp
qed


text \<open>
  C6. With positive block sizes \<^verbatim>\<open>exhaustive_L2sqr_blas\<close> returns, and every distance it
  hands to the result handler is \<open>max(0, \<parallel>x\<^sub>i\<parallel>\<^sup>2 + n\<^sub>j - 2\<langle>x\<^sub>i, y\<^sub>j\<rangle>)\<close> for the query \<open>i\<close>
  and the database position \<open>j\<close> it is handed with, hence never negative, also where
  the value before the clamp is negative. Here \<open>n\<^sub>j\<close> is \<open>\<parallel>y\<^sub>j\<parallel>\<^sup>2\<close>, computed by the function,
  when the caller supplies no table of norms, and entry \<open>j\<close> of the supplied table
  otherwise, whatever that table holds. Conversely every query \<open>i\<close> and every database
  position \<open>j\<close> that the filter lets through is handed to the handler with that
  distance.
\<close>

theorem exhaustive_L2sqr_blas_ingests_clamped_norm_identity:
  assumes "0 < distance_compute_blas_query_bs tn" "0 < distance_compute_blas_database_bs tn"
  shows "\<exists>h. exhaustive_L2sqr_blas recording_handler tn pf x y d nx ny
                (rh_new recording_handler nh k) y_norms bitset = Inr h
           \<and> (\<forall>(i, dis, j) \<in> set (rec_seen h).
                 i < nx \<and> j < ny
                 \<and> dis = max 0 (fvec_norm_L2sqr (ptr_add x (i * d)) d
                              + (case y_norms of
                                   None \<Rightarrow> fvec_norm_L2sqr (ptr_add y (j * d)) d
                                 | Some given \<Rightarrow> given j)
                              - 2 * fvec_inner_product (ptr_add x (i * d)) (ptr_add y (j * d)) d)
                 \<and> 0 \<le> dis)
           \<and> (\<forall>i<nx. \<forall>j<ny. bv_empty bitset \<or> \<not> bv_test bitset j \<longrightarrow>
                 (i, max 0 (fvec_norm_L2sqr (ptr_add x (i * d)) d
                              + (case y_norms of
                                   None \<Rightarrow> fvec_norm_L2sqr (ptr_add y (j * d)) d
                                 | Some given \<Rightarrow> given j)
                              - 2 * fvec_inner_product (ptr_add x (i * d)) (ptr_add y (j * d)) d),
                  j) \<in> set (rec_seen h))"
proof -
  obtain h where run: "exhaustive_L2sqr_blas recording_handler tn pf x y d nx ny
                (rh_new recording_handler nh k) y_norms bitset = Inr h"
    using exhaustive_L2sqr_blas_returns [OF assms(1,2), of recording_handler pf x y d nx ny
        "rh_new recording_handler nh k" y_norms bitset]
    by blast
  have "seen_all (\<lambda>i dis j. i < nx \<and> j < ny
           \<and> dis = norm_identity_L2sqr x y d (y_norms_used y d y_norms) i j) h"
    using run by (rule exhaustive_L2sqr_blas_seen)
  then have sound: "\<forall>(i, dis, j) \<in> set (rec_seen h).
                 i < nx \<and> j < ny
                 \<and> dis = max 0 (fvec_norm_L2sqr (ptr_add x (i * d)) d
                              + (case y_norms of
                                   None \<Rightarrow> fvec_norm_L2sqr (ptr_add y (j * d)) d
                                 | Some given \<Rightarrow> given j)
                              - 2 * fvec_inner_product (ptr_add x (i * d)) (ptr_add y (j * d)) d)
                 \<and> 0 \<le> dis"
    by (auto simp: seen_all_def norm_identity_L2sqr_def y_norms_used_def)
  have complete: "\<forall>i<nx. \<forall>j<ny. bv_empty bitset \<or> \<not> bv_test bitset j \<longrightarrow>
                 (i, max 0 (fvec_norm_L2sqr (ptr_add x (i * d)) d
                              + (case y_norms of
                                   None \<Rightarrow> fvec_norm_L2sqr (ptr_add y (j * d)) d
                                 | Some given \<Rightarrow> given j)
                              - 2 * fvec_inner_product (ptr_add x (i * d)) (ptr_add y (j * d)) d),
                  j) \<in> set (rec_seen h)"
    using exhaustive_L2sqr_blas_covers [OF run]
    by (simp add: norm_identity_L2sqr_def y_norms_used_def)
  from run sound complete show ?thesis by blast
qed

theorem exhaustive_L2sqr_blas_ingests_clamped_norm_identity_witness:
  "0 < distance_compute_blas_query_bs default_tunables
   \<and> 0 < distance_compute_blas_database_bs default_tunables
   \<and> (\<exists>h. exhaustive_L2sqr_blas recording_handler default_tunables single_thread
          (float_array [1]) (float_array [1, 3]) 1 1 2 (rh_new recording_handler 1 1)
          None no_bitset = Inr h
        \<and> rec_seen h = [(0, 0, 0), (0, 4, 1)]
        \<and> (0, 4, 1) \<in> set (rec_seen h))
   \<and> (\<exists>h. exhaustive_L2sqr_blas recording_handler default_tunables single_thread
          (float_array [1]) (float_array [1]) 1 1 1 (rh_new recording_handler 1 1)
          (Some (float_array [0])) no_bitset = Inr h
        \<and> rec_seen h = [(0, 0, 0)]
        \<and> (0, max 0 (- 1), 0) \<in> set (rec_seen h))"
proof -
  have bs: "0 < distance_compute_blas_query_bs default_tunables"
    "0 < distance_compute_blas_database_bs default_tunables"
    by (simp_all add: default_tunables_def)
  have run_a: "exhaustive_L2sqr_blas recording_handler default_tunables single_thread
          (float_array [1]) (float_array [1, 3]) 1 1 2 (rh_new recording_handler 1 1)
          None no_bitset
       = Inr \<lparr>rec_k = 1, rec_i0 = 0, rec_i1 = 1, rec_seen = [(0, 0, 0), (0, 4, 1)]\<rparr>"
    by (simp add: exhaustive_L2sqr_blas_def blas_blocks_def block_loop.simps
        L2sqr_correct_block_def sgemm_def fvec_norms_L2sqr_def kernel_numeral_simps
        recording_handler_simps)
  have run_b: "exhaustive_L2sqr_blas recording_handler default_tunables single_thread
          (float_array [1]) (float_array [1]) 1 1 1 (rh_new recording_handler 1 1)
          (Some (float_array [0])) no_bitset
       = Inr \<lparr>rec_k = 1, rec_i0 = 0, rec_i1 = 1, rec_seen = [(0, 0, 0)]\<rparr>"
    by (simp add: exhaustive_L2sqr_blas_def blas_blocks_def block_loop.simps
        L2sqr_correct_block_def sgemm_def fvec_norms_L2sqr_def kernel_numeral_simps
        recording_handler_simps)
  note a = exhaustive_L2sqr_blas_ingests_clamped_norm_identity
        [where tn = default_tunables and y_norms = None and ny = 2
          and y = "float_array [1, 3]" and d = 1 and pf = single_thread
          and x = "float_array [1]" and nx = 1 and nh = 1 and k = 1 and bitset = no_bitset,
          OF bs(1) bs(2)]
  note b = exhaustive_L2sqr_blas_ingests_clamped_norm_identity
        [where tn = default_tunables and y_norms = "Some (float_array [0])" and ny = 1
          and y = "float_array [1]" and d = 1 and pf = single_thread
          and x = "float_array [1]" and nx = 1 and nh = 1 and k = 1 and bitset = no_bitset,
          OF bs(1) bs(2)]
  show ?thesis
    using a b run_a run_b bs by simp
qed


section \<open>The filter mask on the nested-loop, L2 and cosine paths\<close>

lemma fold_invariant:
  assumes "P s" and "\<And>x s. x \<in> set xs \<Longrightarrow> P s \<Longrightarrow> P (f x s)"
  shows "P (fold f xs s)"
  using assms by (induction xs arbitrary: s) auto

lemma seen_all_rec_add: "seen_all P h \<Longrightarrow> P i dis j \<Longrightarrow> seen_all P (rec_add i dis j h)"
  by (auto simp: seen_all_def rec_add_def)

lemma seen_all_rec_merge:
  "seen_all P other \<Longrightarrow> seen_all P h \<Longrightarrow> seen_all P (rec_merge i other h)"
  by (auto simp: seen_all_def rec_merge_def)

lemma seen_all_rec_copy_from:
  assumes "seen_all P other" "seen_all P h" "\<And>i dis j. P i dis j \<Longrightarrow> P (x_from + i) dis j"
  shows "seen_all P (rec_copy_from other x_from sz h)"
  using assms by (auto simp: seen_all_def rec_copy_from_def)

lemma recording_handler_sel2 [simp]:
  "rh_begin recording_handler = (\<lambda>i h. h)"
  "rh_add_result recording_handler = rec_add"
  "rh_end recording_handler = (\<lambda>i h. h)"
  "rh_add_single_result recording_handler = rec_add"
  "rh_merge recording_handler = rec_merge"
  "rh_copy_from recording_handler = rec_copy_from"
  "rh_clone_n recording_handler n block_x h = replicate n (h\<lparr>rec_seen := []\<rparr>)"
  "rh_k recording_handler = rec_k"
  by (simp_all add: recording_handler_def)

lemma list_update_all:
  assumes "\<forall>r\<in>set ts. P r" and "t < length ts \<Longrightarrow> P v"
  shows "\<forall>r\<in>set (ts[t := v]). P r"
proof (cases "t < length ts")
  case True
  then show ?thesis
    using assms set_update_subset_insert [of ts t v] by auto
next
  case False
  then show ?thesis
    using assms by (simp add: not_less list_update_beyond)
qed

text \<open>The scan that is parallel over the queries never hands over a filtered position.\<close>

lemma exhaustive_parallel_on_nx_unfiltered:
  assumes "seen_all (unfiltered bitset) res"
  shows "seen_all (unfiltered bitset)
           (exhaustive_parallel_on_nx recording_handler x y d nx ny res f bitset)"
  unfolding exhaustive_parallel_on_nx_def Let_def recording_handler_sel2
proof (rule fold_invariant [where P = "seen_all (unfiltered bitset)", OF assms])
  fix i h
  assume h: "seen_all (unfiltered bitset) h"
  have "seen_all (unfiltered bitset)
       (fold (\<lambda>j resi.
            if bv_empty bitset \<or> \<not> bv_test bitset j
            then rec_add i (f (ptr_add x (i * d)) (ptr_add y (j * d)) d) j resi
            else resi) [0..<ny] h)"
  proof (rule fold_invariant [where P = "seen_all (unfiltered bitset)", OF h])
    fix j r
    assume "seen_all (unfiltered bitset) r"
    then show "seen_all (unfiltered bitset)
       (if bv_empty bitset \<or> \<not> bv_test bitset j
        then rec_add i (f (ptr_add x (i * d)) (ptr_add y (j * d)) d) j r else r)"
      by (auto intro: seen_all_rec_add simp: unfiltered_def)
  qed
  then show "seen_all (unfiltered bitset)
       (fold (\<lambda>j resi.
            if bv_empty bitset \<or> \<not> bv_test bitset j
            then rec_add i (f (ptr_add x (i * d)) (ptr_add y (j * d)) d) j resi
            else resi) [0..<ny] h)" .
qed

text \<open>Neither does the scan that is parallel over the database.\<close>

lemma on_ny_scan_unfiltered:
  assumes "\<forall>r\<in>set ress. seen_all (unfiltered bitset) r"
  shows "\<forall>r\<in>set (on_ny_scan recording_handler pf x y d ny f bitset x_from sz ress).
           seen_all (unfiltered bitset) r"
  unfolding on_ny_scan_def Let_def recording_handler_sel2
proof (rule fold_invariant [where P = "\<lambda>ress. \<forall>r\<in>set ress. seen_all (unfiltered bitset) r",
      OF assms])
  fix j and rs :: "recorder list"
  assume rs: "\<forall>r\<in>set rs. seen_all (unfiltered bitset) r"
  show "\<forall>r\<in>set (if bv_empty bitset \<or> \<not> bv_test bitset j
            then fold (\<lambda>i ress.
                   ress[omp_thread_of pf j := rec_add i
                      (f (ptr_add x ((x_from + i) * d)) (ptr_add y (j * d)) d) j
                      (ress ! omp_thread_of pf j)]) [0..<sz] rs
            else rs). seen_all (unfiltered bitset) r"
  proof (cases "bv_empty bitset \<or> \<not> bv_test bitset j")
    case False
    then show ?thesis using rs by simp
  next
    case True
    have "\<forall>r\<in>set (fold (\<lambda>i ress.
                   ress[omp_thread_of pf j := rec_add i
                      (f (ptr_add x ((x_from + i) * d)) (ptr_add y (j * d)) d) j
                      (ress ! omp_thread_of pf j)]) [0..<sz] rs). seen_all (unfiltered bitset) r"
    proof (rule fold_invariant [where P = "\<lambda>ress. \<forall>r\<in>set ress. seen_all (unfiltered bitset) r",
          OF rs])
      fix i and ts :: "recorder list"
      assume ts: "\<forall>r\<in>set ts. seen_all (unfiltered bitset) r"
      show "\<forall>r\<in>set (ts[omp_thread_of pf j := rec_add i
                      (f (ptr_add x ((x_from + i) * d)) (ptr_add y (j * d)) d) j
                      (ts ! omp_thread_of pf j)]). seen_all (unfiltered bitset) r"
      proof (rule list_update_all [OF ts])
        assume "omp_thread_of pf j < length ts"
        then have "seen_all (unfiltered bitset) (ts ! omp_thread_of pf j)"
          using ts by simp
        then show "seen_all (unfiltered bitset) (rec_add i
                      (f (ptr_add x ((x_from + i) * d)) (ptr_add y (j * d)) d) j
                      (ts ! omp_thread_of pf j))"
          using True by (intro seen_all_rec_add) (simp_all add: unfiltered_def)
      qed
    qed
    then show ?thesis using True by simp
  qed
qed

lemma on_ny_merge_unfiltered:
  assumes "\<forall>r\<in>set ress. seen_all (unfiltered bitset) r" "length ress = T"
  shows "(\<forall>r\<in>set (on_ny_merge recording_handler T sz ress). seen_all (unfiltered bitset) r)
     \<and> length (on_ny_merge recording_handler T sz ress) = T"
  unfolding on_ny_merge_def recording_handler_sel2
proof (rule fold_invariant [where
      P = "\<lambda>ress. (\<forall>r\<in>set ress. seen_all (unfiltered bitset) r) \<and> length ress = T"])
  show "(\<forall>r\<in>set ress. seen_all (unfiltered bitset) r) \<and> length ress = T"
    using assms by simp
next
  fix t and rs :: "recorder list"
  assume t: "t \<in> set [1..<T]"
    and rs: "(\<forall>r\<in>set rs. seen_all (unfiltered bitset) r) \<and> length rs = T"
  show "(\<forall>r\<in>set (fold (\<lambda>i ress. ress[0 := rec_merge i (ress ! t) (ress ! 0)])
            [0..<sz] rs). seen_all (unfiltered bitset) r)
     \<and> length (fold (\<lambda>i ress. ress[0 := rec_merge i (ress ! t) (ress ! 0)])
            [0..<sz] rs) = T"
  proof (rule fold_invariant [where
      P = "\<lambda>ress. (\<forall>r\<in>set ress. seen_all (unfiltered bitset) r) \<and> length ress = T", OF rs])
    fix i and ts :: "recorder list"
    assume ts: "(\<forall>r\<in>set ts. seen_all (unfiltered bitset) r) \<and> length ts = T"
    have "seen_all (unfiltered bitset) (rec_merge i (ts ! t) (ts ! 0))"
      using ts t by (intro seen_all_rec_merge) simp_all
    then show "(\<forall>r\<in>set (ts[0 := rec_merge i (ts ! t) (ts ! 0)]).
           seen_all (unfiltered bitset) r)
       \<and> length (ts[0 := rec_merge i (ts ! t) (ts ! 0)]) = T"
      using ts by (auto intro: list_update_all [rule_format])
  qed
qed

lemma on_ny_scan_length:
  "length (on_ny_scan H pf x y d ny f bitset x_from sz ress) = length ress"
  unfolding on_ny_scan_def Let_def
  by (rule fold_invariant [where P = "\<lambda>rs. length rs = length ress"])
    (auto intro!: fold_invariant [where P = "\<lambda>rs. length rs = length ress"])

lemma on_ny_begin_unfiltered:
  assumes "\<forall>r\<in>set ress. seen_all (unfiltered bitset) r"
  shows "(\<forall>r\<in>set (fold (\<lambda>t ress. ress[t := rec_begin_multiple 0 block_x (ress ! t)])
                     [0..<T] ress). seen_all (unfiltered bitset) r)
     \<and> length (fold (\<lambda>t ress. ress[t := rec_begin_multiple 0 block_x (ress ! t)])
                     [0..<T] ress) = length ress"
proof (rule fold_invariant [where
      P = "\<lambda>rs. (\<forall>r\<in>set rs. seen_all (unfiltered bitset) r) \<and> length rs = length ress"])
  show "(\<forall>r\<in>set ress. seen_all (unfiltered bitset) r) \<and> length ress = length ress"
    using assms by simp
next
  fix t and rs :: "recorder list"
  assume rs: "(\<forall>r\<in>set rs. seen_all (unfiltered bitset) r) \<and> length rs = length ress"
  have "\<forall>r\<in>set (rs[t := rec_begin_multiple 0 block_x (rs ! t)]). seen_all (unfiltered bitset) r"
    using rs by (intro list_update_all) (simp_all add: seen_all_begin_multiple)
  then show "(\<forall>r\<in>set (rs[t := rec_begin_multiple 0 block_x (rs ! t)]).
        seen_all (unfiltered bitset) r)
     \<and> length (rs[t := rec_begin_multiple 0 block_x (rs ! t)]) = length ress"
    using rs by simp
qed

lemma on_ny_blocks_unfiltered_aux:
  assumes "0 < omp_get_max_threads pf" "length ress = omp_get_max_threads pf"
    and "\<forall>r\<in>set ress. seen_all (unfiltered bitset) r"
    and "seen_all (unfiltered bitset) res"
    and "H = recording_handler"
  shows "seen_all (unfiltered bitset)
     (on_ny_blocks H pf x y d nx ny f bitset block_x x_from ress res)"
  using assms
proof (induction H pf x y d nx ny f bitset block_x x_from ress res
    rule: on_ny_blocks.induct)
  case (1 H pf x y d nx ny f bitset block_x x_from ress res)
  note H = "1.prems"(5)
  let ?T = "omp_get_max_threads pf"
  show ?case
  proof (cases "x_from < nx \<and> 0 < block_x")
    case False
    then show ?thesis
      using "1.prems"(4) by (subst on_ny_blocks.simps) auto
  next
    case True
    define x_to where "x_to = min nx (x_from + block_x)"
    define sz where "sz = x_to - x_from"
    define ress1 where "ress1 = fold (\<lambda>t ress. ress[t := rh_begin_multiple recording_handler 0 block_x (ress ! t)])
                     [0..<?T] ress"
    define ress2 where "ress2 = on_ny_scan recording_handler pf x y d ny f bitset x_from sz ress1"
    define ress3 where "ress3 = on_ny_merge recording_handler ?T sz ress2"
    define ress4 where "ress4 = ress3[0 := rh_end_multiple recording_handler (ress3 ! 0)]"
    define res' where "res' = rh_copy_from recording_handler (ress4 ! 0) x_from sz res"
    have unfold: "on_ny_blocks H pf x y d nx ny f bitset block_x x_from ress res
        = on_ny_blocks H pf x y d nx ny f bitset block_x x_to ress4 res'"
      using True
      by (subst on_ny_blocks.simps)
        (simp add: H Let_def x_to_def sz_def ress1_def ress2_def ress3_def ress4_def res'_def)
    have r1: "(\<forall>r\<in>set ress1. seen_all (unfiltered bitset) r) \<and> length ress1 = ?T"
      using on_ny_begin_unfiltered [OF "1.prems"(3), of block_x ?T] "1.prems"(2)
      by (simp add: ress1_def)
    have r2: "(\<forall>r\<in>set ress2. seen_all (unfiltered bitset) r) \<and> length ress2 = ?T"
      using on_ny_scan_unfiltered [of ress1 bitset pf x y d ny f x_from sz] r1
      by (simp add: ress2_def on_ny_scan_length)
    have r3: "(\<forall>r\<in>set ress3. seen_all (unfiltered bitset) r) \<and> length ress3 = ?T"
      using on_ny_merge_unfiltered [of ress2 bitset ?T sz] r2 by (simp add: ress3_def)
    have r4: "(\<forall>r\<in>set ress4. seen_all (unfiltered bitset) r) \<and> length ress4 = ?T"
      using r3 "1.prems"(1) by (simp add: ress4_def list_update_same_conv)
    have "seen_all (unfiltered bitset) (ress4 ! 0)"
      using r4 "1.prems"(1) by simp
    then have r5: "seen_all (unfiltered bitset) res'"
      unfolding res'_def recording_handler_sel2
      using "1.prems"(4) by (intro seen_all_rec_copy_from) (simp_all add: unfiltered_def)
    show ?thesis
      unfolding unfold
      using "1.IH" [OF True x_to_def sz_def ress1_def [unfolded H [symmetric]]
          ress2_def [unfolded H [symmetric]] ress3_def [unfolded H [symmetric]]
          ress4_def [unfolded H [symmetric]] res'_def [unfolded H [symmetric]]
          "1.prems"(1)] r4 r5 H
      by simp
  qed
qed

lemma exhaustive_L2sqr_IP_seq_unfiltered:
  assumes "0 < omp_get_max_threads pf"
    and "exhaustive_L2sqr_IP_seq recording_handler pf x y d nx ny
           (rh_new recording_handler nh k) f bitset = Inr h"
  shows "seen_all (unfiltered bitset) h"
proof -
  have init: "seen_all (unfiltered bitset) (rh_new recording_handler nh k)"
    by (simp add: seen_all_def)
  show ?thesis
  proof (cases "database_parallel (omp_get_max_threads pf) nx ny")
    case False
    then show ?thesis
      using assms(2) exhaustive_parallel_on_nx_unfiltered [OF init, of x y d nx ny f]
      by (simp add: exhaustive_L2sqr_IP_seq_def)
  next
    case True
    then have "exhaustive_parallel_on_ny recording_handler pf x y d nx ny
           (rh_new recording_handler nh k) f bitset = Inr h"
      using assms(2) by (simp add: exhaustive_L2sqr_IP_seq_def)
    then obtain block_x where
      h: "h = on_ny_blocks recording_handler pf x y d nx ny f bitset block_x 0
             (replicate (omp_get_max_threads pf)
                (rh_new recording_handler nh k\<lparr>rec_seen := []\<rparr>))
             (rh_new recording_handler nh k)"
      by (auto simp: exhaustive_parallel_on_ny_def Let_def split: if_splits)
    show ?thesis
      unfolding h
      by (rule on_ny_blocks_unfiltered_aux [OF assms(1) _ _ init])
        (simp_all add: seen_all_def)
  qed
qed

text \<open>
  The loop nest hands over only positions that pass the mask given to \<^verbatim>\<open>add_results\<close>:
  the bitset in the L2 and cosine drivers.
\<close>

lemma blas_blocks_unfiltered:
  assumes "blas_blocks recording_handler bs_x bs_y x y d nx ny correct passed blk
             (rh_new recording_handler nh k) = Inr h"
  shows "seen_all (unfiltered passed) h"
  by (rule blas_blocks_seen_all [OF assms]) (simp_all add: seen_all_def unfiltered_def)

lemma exhaustive_L2sqr_blas_unfiltered:
  assumes "exhaustive_L2sqr_blas recording_handler tn pf x y d nx ny
             (rh_new recording_handler nh k) y_norms bitset = Inr h"
  shows "seen_all (unfiltered bitset) h"
proof (cases "nx = 0 \<or> ny = 0")
  case True
  then show ?thesis using assms by (auto simp: exhaustive_L2sqr_blas_def seen_all_def)
next
  case False
  then show ?thesis
    using assms unfolding exhaustive_L2sqr_blas_def Let_def
    by (simp only: if_False) (rule blas_blocks_unfiltered)
qed

lemma exhaustive_cosine_blas_unfiltered:
  assumes "exhaustive_cosine_blas recording_handler tn pf x y d nx ny
             (rh_new recording_handler nh k) bitset = Inr h"
  shows "seen_all (unfiltered bitset) h"
proof (cases "nx = 0 \<or> ny = 0")
  case True
  then show ?thesis using assms by (auto simp: exhaustive_cosine_blas_def seen_all_def)
next
  case False
  then show ?thesis
    using assms unfolding exhaustive_cosine_blas_def Let_def
    by (simp only: if_False) (rule blas_blocks_unfiltered)
qed

lemma cosine_correct_block_entry:
  assumes "i0 \<le> i" "i < i1" "j0 \<le> j" "j < j1"
  shows "cosine_correct_block yn i0 i1 j0 j1 blk ((i - i0) * (j1 - j0) + (j - j0))
     = blk ((i - i0) * (j1 - j0) + (j - j0)) / yn j"
  unfolding cosine_correct_block_def Let_def
  using tile_fold_entry [OF assms, of "\<lambda>i j v. v / yn j" blk]
  by simp

text \<open>
  What \<^verbatim>\<open>exhaustive_cosine_blas\<close> hands over in general: for a database position
  \<open>j\<close> below \<open>nx\<close>, the inner product divided by the norm of query \<open>j\<close>.
\<close>

lemma exhaustive_cosine_blas_seen:
  assumes run: "exhaustive_cosine_blas recording_handler tn pf x y d nx ny
                  (rh_new recording_handler nh k) bitset = Inr h"
  shows "seen_all (\<lambda>i dis j. j < nx \<longrightarrow>
            dis = fvec_inner_product (ptr_add x (i * d)) (ptr_add y (j * d)) d
                  / sqrt (fvec_norm_L2sqr (ptr_add x (j * d)) d)) h"
proof (cases "nx = 0 \<or> ny = 0")
  case True
  with run show ?thesis
    by (auto simp: exhaustive_cosine_blas_def seen_all_def)
next
  case False
  define yn where "yn = fvec_norms_L2 (uninitialized pf) x d nx"
  have yn: "yn j = sqrt (fvec_norm_L2sqr (ptr_add x (j * d)) d)" if "j < nx" for j
    using that by (simp add: yn_def fvec_norms_L2_entry)
  from run False have run':
    "blas_blocks recording_handler (distance_compute_blas_query_bs tn)
       (distance_compute_blas_database_bs tn) x y d nx ny (cosine_correct_block yn)
       bitset (uninitialized pf) (rh_new recording_handler nh k) = Inr h"
    by (simp add: exhaustive_cosine_blas_def Let_def yn_def)
  show ?thesis
  proof (rule blas_blocks_seen_all [OF run'])
    show "seen_all (\<lambda>i dis j. j < nx \<longrightarrow>
            dis = fvec_inner_product (ptr_add x (i * d)) (ptr_add y (j * d)) d
                  / sqrt (fvec_norm_L2sqr (ptr_add x (j * d)) d))
            (rh_new recording_handler nh k)"
      by (simp add: seen_all_def)
  next
    fix i0 i1 j0 j1 i j blk
    assume b: "i0 \<le> i" "i < i1" "i1 \<le> nx" "j0 \<le> j" "j < j1" "j1 \<le> ny"
    let ?p = "(i - i0) * (j1 - j0) + (j - j0)"
    let ?ip = "sgemm (j1 - j0) (i1 - i0) d (ptr_add y (j0 * d)) (ptr_add x (i0 * d)) blk"
    have e1: "cosine_correct_block yn i0 i1 j0 j1 ?ip ?p = ?ip ?p / yn j"
      using b by (intro cosine_correct_block_entry)
    have e2: "?ip ?p = fvec_inner_product (ptr_add x (i * d)) (ptr_add y (j * d)) d"
      using b by (intro sgemm_entry)
    show "j < nx \<longrightarrow> cosine_correct_block yn i0 i1 j0 j1 ?ip ?p
        = fvec_inner_product (ptr_add x (i * d)) (ptr_add y (j * d)) d
          / sqrt (fvec_norm_L2sqr (ptr_add x (j * d)) d)"
      unfolding e1 e2 by (simp add: yn)
  qed
qed

section \<open>Re-ranking by index\<close>

lemma inner_products_by_idx_scan_done:
  "\<not> j < ny \<Longrightarrow> inner_products_by_idx_scan H xi y idsi d ny k j simi = simi"
  by (subst inner_products_by_idx_scan.simps) simp

lemma inner_products_by_idx_scan_break:
  "j < ny \<Longrightarrow> idsi j < 0 \<Longrightarrow> inner_products_by_idx_scan H xi y idsi d ny k j simi = simi"
  by (subst inner_products_by_idx_scan.simps) simp

lemma inner_products_by_idx_scan_step:
  "j < ny \<Longrightarrow> \<not> idsi j < 0 \<Longrightarrow>
   inner_products_by_idx_scan H xi y idsi d ny k j simi =
     inner_products_by_idx_scan H xi y idsi d ny k (j + 1)
       (if fval_less (heap_top H simi)
             (Finite (fvec_inner_product xi (ptr_at y (int d * idsi j)) d))
        then heap_replace_top H k (fvec_inner_product xi (ptr_at y (int d * idsi j)) d)
               (idsi j) simi
        else simi)"
  by (subst inner_products_by_idx_scan.simps) (simp add: Let_def)

text \<open>
  In \<^verbatim>\<open>knn_inner_products_by_idx\<close> a negative id ends the scan: the scan of \<open>ny\<close>
  candidates is the scan of the candidates before the negative id at \<open>j0\<close>.
\<close>

lemma inner_products_by_idx_scan_stops:
  assumes "idsi j0 < 0" "j \<le> j0" "j0 < ny"
  shows "inner_products_by_idx_scan H xi y idsi d ny k j simi
       = inner_products_by_idx_scan H xi y idsi d j0 k j simi"
  using assms
proof (induction H xi y idsi d ny k j simi rule: inner_products_by_idx_scan.induct)
  case (1 H xi y idsi d ny k j simi)
  show ?case
  proof (cases "j = j0")
    case True
    then show ?thesis
      using "1.prems"
      by (simp add: inner_products_by_idx_scan_break inner_products_by_idx_scan_done)
  next
    case False
    then have lt: "j < j0" "j < ny" using "1.prems" by simp_all
    show ?thesis
    proof (cases "idsi j < 0")
      case True
      then show ?thesis
        using lt by (simp add: inner_products_by_idx_scan_break)
    next
      case neg: False
      have "j + 1 \<le> j0" using lt by simp
      then show ?thesis
        using lt neg "1.IH" [OF lt(2) neg refl refl "1.prems"(1) _ "1.prems"(3)]
        by (simp add: inner_products_by_idx_scan_step)
    qed
  qed
qed

text \<open>
  C5. The claim is that in both re-ranking variants a negative id ends the scan of the
  query's candidates. \<^verbatim>\<open>knn_L2sqr_by_idx\<close> has no such test: for the candidate list
  \<open>[-1, 0]\<close> and \<open>k = 2\<close> it evaluates the negative id against the memory in front of
  the database, admits it, goes on to candidate \<open>0\<close>, at squared distance 25 from the
  query, and admits it too. \<^verbatim>\<open>knn_inner_products_by_idx\<close> on the same list stops at
  once and leaves both slots unfilled.
\<close>

theorem knn_L2sqr_by_idx_scans_past_negative_id:
  "knn_L2sqr_by_idx maxheap (float_array [0])
      (\<lambda>a. if a = 0 then 5 else if a = - 1 then 1 else 0) (int_array [- 1, 0]) 1 1 2 2
      (\<lambda>i. []) 0
     = [(Finite 1, - 1), (Finite 25, 0)]
   \<and> knn_inner_products_by_idx minheap (float_array [0])
      (\<lambda>a. if a = 0 then 5 else if a = - 1 then 1 else 0) (int_array [- 1, 0]) 1 1 2 2
      (\<lambda>i. []) 0
     = [(MinusInfinity, - 1), (MinusInfinity, - 1)]"
  by (simp add: knn_L2sqr_by_idx_def knn_inner_products_by_idx_def
      inner_products_by_idx_scan.simps maxheap_def minheap_def
      ptr_at_def ptr_add_def float_array_def int_array_def Let_def upt_0_numeral
      numeral_2_eq_2)

section \<open>Elkan assignment against the brute-force scan\<close>

lemma fvec_L2sqr_nonneg: "0 \<le> fvec_L2sqr x y d"
  by (induction d) simp_all

lemma fvec_L2sqr_commute: "fvec_L2sqr x y d = fvec_L2sqr y x d"
  by (induction d) (simp_all add: algebra_simps)

lemma fvec_L2sqr_split:
  "fvec_L2sqr x y (a + b) = fvec_L2sqr x y a + fvec_L2sqr (ptr_add x a) (ptr_add y a) b"
  by (induction b) (simp_all add: ptr_add_def)

lemma fvec_L2sqr_halves:
  "fvec_L2sqr x y (d div 2)
     + fvec_L2sqr (ptr_add x (d div 2)) (ptr_add y (d div 2)) (d - d div 2) = fvec_L2sqr x y d"
  using fvec_L2sqr_split [of x y "d div 2" "d - d div 2"] by simp

lemma square_diff_le:
  fixes x b j :: real
  shows "(b - j) * (b - j) \<le> 2 * ((x - b) * (x - b)) + 2 * ((x - j) * (x - j))"
proof -
  have "0 \<le> ((x - b) + (x - j)) * ((x - b) + (x - j))"
    by simp
  then show ?thesis
    by (simp add: algebra_simps)
qed

lemma fvec_L2sqr_relaxed_triangle:
  "fvec_L2sqr b j d \<le> 2 * fvec_L2sqr x b d + 2 * fvec_L2sqr x j d"
proof (induction d)
  case 0
  then show ?case by simp
next
  case (Suc d)
  show ?case
    using Suc square_diff_le [of "b d" "j d" "x d"] by simp
qed

text \<open>
  The skip bound: if four times the squared distance to the current best \<open>b\<close> is at most
  the squared distance between \<open>b\<close> and \<open>j\<close>, then \<open>j\<close> is not strictly closer.
\<close>

lemma elkan_skip_sound:
  assumes "4 * fvec_L2sqr x b d \<le> fvec_L2sqr j b d"
  shows "fvec_L2sqr x b d \<le> fvec_L2sqr x j d"
  using assms fvec_L2sqr_relaxed_triangle [of b j d x] fvec_L2sqr_commute [of j b d]
  by simp

lemma tri_Suc: "tri (Suc n) = tri n + n"
proof -
  have "Suc n * n = n * (n - 1) + 2 * n"
    by (cases n) simp_all
  then show ?thesis
    by (simp add: tri_def)
qed

lemma tri_mono: "m \<le> n \<Longrightarrow> tri m \<le> tri n"
  by (induction n) (auto simp: tri_Suc le_Suc_eq)

lemma Y_index_below:
  assumes "j0 \<le> j" "j < i"
  shows "Y_index j0 i j = tri (i - j0) + (j - j0)"
proof -
  have "i - j0 > j - j0"
    using assms by linarith
  then show ?thesis
    unfolding Y_index_def Let_def tri_def by (simp only: if_True add.commute)
qed

lemma Y_index_above:
  assumes "j0 \<le> b" "b < j"
  shows "Y_index j0 b j = tri (j - j0) + (b - j0)"
proof -
  have "\<not> b - j0 > j - j0"
    using assms by linarith
  then show ?thesis
    unfolding Y_index_def Let_def tri_def by (simp only: if_False add.commute)
qed

lemma elkan_row_closed:
  assumes "j0 \<le> i"
  shows "fold (\<lambda>j data. data(Y_index j0 i j := f j)) [j0..<i] (data::fptr)
     = (\<lambda>p. if tri (i - j0) \<le> p \<and> p < tri (i - j0) + (i - j0)
            then f (j0 + (p - tri (i - j0))) else data p)"
proof -
  have "fold (\<lambda>j data. data(Y_index j0 i j := f j)) [j0..<i] data
      = fold (\<lambda>j data. data(tri (i - j0) + (j - j0) := f j)) [j0..<i] data"
    by (rule fold_cong) (auto simp: Y_index_below)
  also have "\<dots> = fold (\<lambda>j data. data(tri (i - j0) + (j - j0) := f j))
        [j0..<j0 + (i - j0)] data"
    using assms by simp
  also have "\<dots> = (\<lambda>p. if tri (i - j0) \<le> p \<and> p < tri (i - j0) + (i - j0)
            then f (j0 + (p - tri (i - j0))) else data p)"
    by (rule row_fold_closed [of "tri (i - j0)" j0 "\<lambda>j v. f j" "i - j0" data])
  finally show ?thesis .
qed

lemma elkan_pairwise_rows:
  assumes "j0 \<le> a" "a < b" "b < j0 + 1 + m"
  shows "fold (\<lambda>i data. fold (\<lambda>j data. data(Y_index j0 i j := f i j)) [j0..<i] data)
           [j0 + 1..<j0 + 1 + m] (data::fptr) (tri (b - j0) + (a - j0)) = f b a"
  using assms
proof (induction m arbitrary: a b)
  case 0
  then show ?case by simp
next
  case (Suc m)
  define R where "R = (\<lambda>i (data::fptr). fold (\<lambda>j data. data(Y_index j0 i j := f i j)) [j0..<i] data)"
  define prev where "prev = fold R [j0 + 1..<j0 + 1 + m] data"
  define p where "p = tri (b - j0) + (a - j0)"
  let ?i = "j0 + 1 + m"
  have im: "?i - j0 = Suc m"
    by simp
  have unfold: "fold R [j0 + 1..<j0 + 1 + Suc m] data = R ?i prev"
    by (simp add: prev_def)
  have "R ?i prev = (\<lambda>p. if tri (?i - j0) \<le> p \<and> p < tri (?i - j0) + (?i - j0)
            then f ?i (j0 + (p - tri (?i - j0))) else prev p)"
    unfolding R_def by (rule elkan_row_closed) simp
  then have row: "R ?i prev p = (if tri (Suc m) \<le> p \<and> p < tri (Suc m) + Suc m
            then f ?i (j0 + (p - tri (Suc m))) else prev p)"
    unfolding im by simp
  have "R ?i prev p = f b a"
  proof (cases "b = ?i")
    case True
    then have "b - j0 = Suc m" by simp
    then have "tri (Suc m) \<le> p" "p < tri (Suc m) + Suc m" "j0 + (p - tri (Suc m)) = a"
      using Suc.prems True by (simp_all add: p_def)
    then show ?thesis
      unfolding row using True by simp
  next
    case False
    then have b: "b < j0 + 1 + m" using Suc.prems by simp
    have "p < tri (b - j0) + (b - j0)"
      using Suc.prems by (simp add: p_def)
    also have "\<dots> = tri (Suc (b - j0))"
      by (simp add: tri_Suc)
    also have "\<dots> \<le> tri (Suc m)"
      using b by (intro tri_mono) simp
    finally have "p < tri (Suc m)" .
    moreover have "prev p = f b a"
      unfolding prev_def R_def p_def by (rule Suc.IH [OF Suc.prems(1,2) b])
    ultimately show ?thesis
      unfolding row by simp
  qed
  then have "fold R [j0 + 1..<j0 + 1 + Suc m] data p = f b a"
    by (simp only: unfold)
  then show ?case
    unfolding R_def p_def .
qed

lemma elkan_pairwise_entry:
  assumes "j0 \<le> a" "a < b" "b < j1"
  shows "elkan_pairwise y d j0 j1 data (Y_index j0 a b)
     = fvec_L2sqr (ptr_add y (b * d)) (ptr_add y (a * d)) d"
proof -
  have j1: "[j0 + 1..<j1] = [j0 + 1..<j0 + 1 + (j1 - (j0 + 1))]"
    by (rule upt_diff)
  have "b < j0 + 1 + (j1 - (j0 + 1))"
    using assms by simp
  then show ?thesis
    unfolding elkan_pairwise_def Y_index_above [OF assms(1,2)]
    by (subst j1)
      (rule elkan_pairwise_rows [OF assms(1,2),
        of _ "\<lambda>i j. fvec_L2sqr (ptr_add y (i * d)) (ptr_add y (j * d)) d"])
qed

lemma brute_force_nearest_block: "brute_force_nearest x_i y d ny = block_nearest x_i y d 0 ny"
  by (simp add: brute_force_nearest_def block_nearest_def brute_step_def ptr_add_def)

lemma brute_step_simp:
  "brute_step x_i y d j (b, v) =
     (if fvec_L2sqr x_i (ptr_add y (j * d)) d < v
      then (j, fvec_L2sqr x_i (ptr_add y (j * d)) d) else (b, v))"
  by (simp add: brute_step_def Let_def)

lemma elkan_scan_step:
  assumes D: "D = fvec_L2sqr (ptr_add y (j * d)) (ptr_add y (b * d)) d"
    and v: "v = fvec_L2sqr x_i (ptr_add y (b * d)) d"
  shows "(if v * 4 \<le> D then (b, v, v * 4)
        else
          let y_j = ptr_add y (j * d);
              disij = fvec_L2sqr x_i y_j (d div 2)
          in if disij \<ge> v then (b, v, v * 4)
             else
               let disij = disij
                     + fvec_L2sqr (ptr_add x_i (d div 2)) (ptr_add y_j (d div 2)) (d - d div 2)
               in if disij < v then (j, disij, disij * 4)
                  else (b, v, v * 4))
       = (case brute_step x_i y d j (b, v) of (b', v') \<Rightarrow> (b', v', v' * 4))"
proof -
  let ?q = "fvec_L2sqr x_i (ptr_add y (j * d)) d"
  let ?half = "fvec_L2sqr x_i (ptr_add y (j * d)) (d div 2)"
  let ?rest = "fvec_L2sqr (ptr_add x_i (d div 2)) (ptr_add (ptr_add y (j * d)) (d div 2)) (d - d div 2)"
  have full: "?half + ?rest = ?q"
    by (rule fvec_L2sqr_halves)
  have rest: "0 \<le> ?rest"
    by (rule fvec_L2sqr_nonneg)
  show ?thesis
  proof (cases "v * 4 \<le> D")
    case True
    then have "4 * fvec_L2sqr x_i (ptr_add y (b * d)) d
        \<le> fvec_L2sqr (ptr_add y (j * d)) (ptr_add y (b * d)) d"
      using D v by simp
    then have "v \<le> ?q"
      unfolding v by (rule elkan_skip_sound)
    then show ?thesis
      using True by (simp add: brute_step_simp)
  next
    case False
    show ?thesis
    proof (cases "?half \<ge> v")
      case True
      then have "v \<le> ?q" using full rest by linarith
      then show ?thesis
        using False True by (simp add: brute_step_simp Let_def)
    next
      case half: False
      show ?thesis
        using False half full by (simp add: brute_step_simp Let_def)
    qed
  qed
qed

lemma elkan_scan_prefix:
  assumes data: "\<And>a b. j0 \<le> a \<Longrightarrow> a < b \<Longrightarrow> b < j1
      \<Longrightarrow> data (Y_index j0 a b) = fvec_L2sqr (ptr_add y (b * d)) (ptr_add y (a * d)) d"
    and m: "j0 + 1 + m \<le> j1"
  shows "\<exists>b v. block_nearest x_i y d j0 (j0 + 1 + m) = (b, v)
      \<and> fold (elkan_step x_i y d j0 data) [j0 + 1..<j0 + 1 + m]
           (j0, fvec_L2sqr x_i (ptr_add y (j0 * d)) d, fvec_L2sqr x_i (ptr_add y (j0 * d)) d * 4)
          = (b, v, v * 4)
      \<and> j0 \<le> b \<and> b < j0 + 1 + m \<and> v = fvec_L2sqr x_i (ptr_add y (b * d)) d"
  using m
proof (induction m)
  case 0
  then show ?case by (simp add: block_nearest_def)
next
  case (Suc m)
  let ?j = "j0 + 1 + m"
  let ?init = "(j0, fvec_L2sqr x_i (ptr_add y (j0 * d)) d, fvec_L2sqr x_i (ptr_add y (j0 * d)) d * 4)"
  from Suc obtain b v where
    bn: "block_nearest x_i y d j0 ?j = (b, v)"
    and es: "fold (elkan_step x_i y d j0 data) [j0 + 1..<?j] ?init = (b, v, v * 4)"
    and b: "j0 \<le> b" "b < ?j" and v: "v = fvec_L2sqr x_i (ptr_add y (b * d)) d"
    by auto
  have jlt: "?j < j1" using Suc.prems by simp
  have D: "data (Y_index j0 b ?j) = fvec_L2sqr (ptr_add y (?j * d)) (ptr_add y (b * d)) d"
    by (rule data [OF b jlt])
  obtain b' v' where st: "brute_step x_i y d ?j (b, v) = (b', v')"
    by (cases "brute_step x_i y d ?j (b, v)")
  have bn': "block_nearest x_i y d j0 (j0 + 1 + Suc m) = (b', v')"
    using bn st by (simp add: block_nearest_def)
  have "fold (elkan_step x_i y d j0 data) [j0 + 1..<j0 + 1 + Suc m] ?init = elkan_step x_i y d j0 data ?j (fold (elkan_step x_i y d j0 data) [j0 + 1..<?j] ?init)"
    by simp
  also have "\<dots> = elkan_step x_i y d j0 data ?j (b, v, v * 4)"
    by (simp only: es)
  also have "\<dots> = (case brute_step x_i y d ?j (b, v) of (b', v') \<Rightarrow> (b', v', v' * 4))"
    unfolding elkan_step_def prod.case by (rule elkan_scan_step [OF D v])
  also have "\<dots> = (b', v', v' * 4)"
    by (simp only: st prod.case)
  finally have es': "fold (elkan_step x_i y d j0 data) [j0 + 1..<j0 + 1 + Suc m] ?init = (b', v', v' * 4)" .
  have "j0 \<le> b' \<and> b' < j0 + 1 + Suc m \<and> v' = fvec_L2sqr x_i (ptr_add y (b' * d)) d"
    using st b v by (auto simp: brute_step_simp split: if_splits)
  with bn' es' show ?case by blast
qed

lemma elkan_scan_block_nearest:
  assumes "j0 < j1"
  shows "elkan_scan_block x_i y d j0 j1 (elkan_pairwise y d j0 j1 data)
     = (case block_nearest x_i y d j0 j1 of (b, v) \<Rightarrow> (b, v, v * 4))"
proof -
  have j1: "j0 + 1 + (j1 - (j0 + 1)) = j1"
    using assms by simp
  have "j0 + 1 + (j1 - (j0 + 1)) \<le> j1"
    using assms by simp
  from elkan_scan_prefix [where data = "elkan_pairwise y d j0 j1 data" and x_i = x_i,
      OF elkan_pairwise_entry this]
  show ?thesis
    unfolding j1 elkan_scan_block_def by auto
qed

lemma block_nearest_Suc:
  "j0 < j1 \<Longrightarrow> block_nearest x_i y d j0 (Suc j1)
     = brute_step x_i y d j1 (block_nearest x_i y d j0 j1)"
  by (simp add: block_nearest_def)

lemma block_nearest_single:
  "block_nearest x_i y d j0 (Suc j0) = (j0, fvec_L2sqr x_i (ptr_add y (j0 * d)) d)"
  by (simp add: block_nearest_def)

lemma block_nearest_props:
  assumes "j0 < j1" "block_nearest x_i y d j0 j1 = (b, v)"
  shows "j0 \<le> b \<and> b < j1 \<and> v = fvec_L2sqr x_i (ptr_add y (b * d)) d
     \<and> (\<forall>j. j0 \<le> j \<and> j < j1 \<longrightarrow> v \<le> fvec_L2sqr x_i (ptr_add y (j * d)) d)
     \<and> (\<forall>j. j0 \<le> j \<and> j < b \<longrightarrow> v < fvec_L2sqr x_i (ptr_add y (j * d)) d)"
  using assms
proof (induction j1 arbitrary: b v)
  case 0
  then show ?case by simp
next
  case (Suc j1)
  show ?case
  proof (cases "j0 = j1")
    case True
    then show ?thesis
      using Suc.prems by (auto simp: block_nearest_single less_Suc_eq)
  next
    case False
    then have lt: "j0 < j1" using Suc.prems by simp
    obtain b0 v0 where prev: "block_nearest x_i y d j0 j1 = (b0, v0)"
      by (cases "block_nearest x_i y d j0 j1")
    note ih = Suc.IH [OF lt prev]
    have step: "(b, v) = brute_step x_i y d j1 (b0, v0)"
      using Suc.prems(2) block_nearest_Suc [OF lt, of x_i y d] prev by simp
    show ?thesis
    proof (cases "fvec_L2sqr x_i (ptr_add y (j1 * d)) d < v0")
      case True
      then have "b = j1" "v = fvec_L2sqr x_i (ptr_add y (j1 * d)) d"
        using step by (simp_all add: brute_step_simp)
      then show ?thesis
        using ih True lt by (auto simp: less_Suc_eq)
    next
      case False
      then have "b = b0" "v = v0"
        using step by (simp_all add: brute_step_simp)
      then show ?thesis
        using ih False by (auto simp: less_Suc_eq)
    qed
  qed
qed

lemma brute_fold_merge:
  "fold (brute_step x_i y d) [j0..<j0 + 1 + m] (b, v)
     = (case block_nearest x_i y d j0 (j0 + 1 + m) of
          (b', v') \<Rightarrow> if v > v' then (b', v') else (b, v))"
proof (induction m)
  case 0
  show ?case
    by (simp add: block_nearest_single brute_step_simp)
next
  case (Suc m)
  obtain b' v' where bn: "block_nearest x_i y d j0 (j0 + 1 + m) = (b', v')"
    by (cases "block_nearest x_i y d j0 (j0 + 1 + m)")
  have bn': "block_nearest x_i y d j0 (j0 + 1 + Suc m)
      = brute_step x_i y d (j0 + 1 + m) (b', v')"
    using block_nearest_Suc [of j0 "j0 + 1 + m" x_i y d] bn by simp
  have "fold (brute_step x_i y d) [j0..<j0 + 1 + Suc m] (b, v)
      = brute_step x_i y d (j0 + 1 + m) (fold (brute_step x_i y d) [j0..<j0 + 1 + m] (b, v))"
    by simp
  also have "\<dots> = brute_step x_i y d (j0 + 1 + m) (if v > v' then (b', v') else (b, v))"
    by (simp only: Suc bn prod.case)
  also have "\<dots> = (case brute_step x_i y d (j0 + 1 + m) (b', v') of
          (b'', v'') \<Rightarrow> if v > v'' then (b'', v'') else (b, v))"
    by (auto simp: brute_step_simp)
  finally show ?case
    by (simp only: bn')
qed

lemma block_nearest_append:
  assumes "0 < j0" "j0 < j1"
  shows "block_nearest x_i y d 0 j1
     = (case block_nearest x_i y d 0 j0 of (b, v) \<Rightarrow>
          case block_nearest x_i y d j0 j1 of (b', v') \<Rightarrow> if v > v' then (b', v') else (b, v))"
proof -
  obtain b v where bn: "block_nearest x_i y d 0 j0 = (b, v)"
    by (cases "block_nearest x_i y d 0 j0")
  have split: "[0 + 1..<j1] = [0 + 1..<j0] @ [j0..<j1]"
  proof -
    have "[1..<j0 + (j1 - j0)] = [1..<j0] @ [j0..<j0 + (j1 - j0)]"
      using assms by (intro upt_add_eq_append) simp
    then show ?thesis using assms by simp
  qed
  have j1: "j0 + 1 + (j1 - (j0 + 1)) = j1"
    using assms by simp
  have "block_nearest x_i y d 0 j1 = fold (brute_step x_i y d) [j0..<j1] (b, v)"
    unfolding block_nearest_def [of x_i y d 0 j1] split fold_append comp_def
    using bn by (simp add: block_nearest_def)
  also have "\<dots> = (case block_nearest x_i y d j0 j1 of
          (b', v') \<Rightarrow> if v > v' then (b', v') else (b, v))"
    using brute_fold_merge [of x_i y d j0 "j1 - (j0 + 1)" b v] unfolding j1 .
  finally show ?thesis
    by (simp add: bn)
qed

lemma elkan_commit_closed:
  "fold (\<lambda>i (ids, val).
      case r i of (ids_i, val_i, val_i_time_4) \<Rightarrow>
        if c \<or> val i > val_i then (ids(i := int ids_i), val(i := val_i)) else (ids, val))
     [0..<n] (ids :: nat \<Rightarrow> int, val :: fptr)
   = ((\<lambda>i. if i < n \<and> (c \<or> val i > fst (snd (r i))) then int (fst (r i)) else ids i),
      (\<lambda>i. if i < n \<and> (c \<or> val i > fst (snd (r i))) then fst (snd (r i)) else val i))"
proof (induction n)
  case 0
  then show ?case by simp
next
  case (Suc n)
  let ?F = "\<lambda>i (ids :: nat \<Rightarrow> int, val :: fptr).
      case r i of (ids_i, val_i, val_i_time_4) \<Rightarrow>
        if c \<or> val i > val_i then (ids(i := int ids_i), val(i := val_i)) else (ids, val)"
  let ?c = "\<lambda>n. ((\<lambda>i. if i < n \<and> (c \<or> val i > fst (snd (r i))) then int (fst (r i)) else ids i),
      (\<lambda>i. if i < n \<and> (c \<or> val i > fst (snd (r i))) then fst (snd (r i)) else val i))"
  have "fold ?F [0..<Suc n] (ids, val) = ?F n (fold ?F [0..<n] (ids, val))"
    by simp
  also have "\<dots> = ?F n (?c n)"
    by (simp only: Suc)
  also have "\<dots> = ?c (Suc n)"
    by (cases "r n") (auto simp: fun_eq_iff less_Suc_eq)
  finally show ?case .
qed

lemma elkan_block_commit:
  assumes "j0 < j1" "i < nx"
  shows "(fst (elkan_assign_block x y d nx j0 j1 (elkan_pairwise y d j0 j1 data) (ids, val)) i,
          snd (elkan_assign_block x y d nx j0 j1 (elkan_pairwise y d j0 j1 data) (ids, val)) i) =
     (case block_nearest (ptr_add x (i * d)) y d j0 j1 of (b', v') \<Rightarrow>
        if j0 = 0 \<or> val i > v' then (int b', v') else (ids i, val i))"
proof -
  obtain b' v' where bn: "block_nearest (ptr_add x (i * d)) y d j0 j1 = (b', v')"
    by (cases "block_nearest (ptr_add x (i * d)) y d j0 j1")
  have r: "elkan_scan_block (ptr_add x (i * d)) y d j0 j1 (elkan_pairwise y d j0 j1 data)
      = (b', v', v' * 4)"
    using elkan_scan_block_nearest [OF assms(1), of "ptr_add x (i * d)" y d data] bn by simp
  show ?thesis
    unfolding elkan_assign_block_def Let_def
      elkan_commit_closed [where r = "\<lambda>i. elkan_scan_block (ptr_add x (i * d)) y d j0 j1
          (elkan_pairwise y d j0 j1 data)" and c = "j0 = 0"]
    using assms(2) by (simp add: r bn)
qed

lemma elkan_block_step:
  assumes inv: "elkan_upto x y d nx j0 (data, ids, val)" and j: "j0 < j1"
  shows "elkan_upto x y d nx j1 (elkan_pairwise y d j0 j1 data,
            elkan_assign_block x y d nx j0 j1 (elkan_pairwise y d j0 j1 data) (ids, val))"
proof -
  define s' where "s' = elkan_assign_block x y d nx j0 j1 (elkan_pairwise y d j0 j1 data) (ids, val)"
  have "(fst s' i, snd s' i) =
      (case block_nearest (ptr_add x (i * d)) y d 0 j1 of (b, v) \<Rightarrow> (int b, v))"
    if i: "i < nx" for i
  proof -
    obtain b' v' where bn: "block_nearest (ptr_add x (i * d)) y d j0 j1 = (b', v')"
      by (cases "block_nearest (ptr_add x (i * d)) y d j0 j1")
    have c: "(fst s' i, snd s' i) = (if j0 = 0 \<or> val i > v' then (int b', v') else (ids i, val i))"
      unfolding s'_def using elkan_block_commit [OF j i, of x y d data ids val] bn by simp
    show ?thesis
    proof (cases "j0 = 0")
      case True
      then show ?thesis using c bn by simp
    next
      case False
      then have pos: "0 < j0" by simp
      obtain b v where old: "block_nearest (ptr_add x (i * d)) y d 0 j0 = (b, v)"
        by (cases "block_nearest (ptr_add x (i * d)) y d 0 j0")
      have iv: "ids i = int b" "val i = v"
        using inv i False old by (auto simp: elkan_upto_def)
      show ?thesis
        using c False iv block_nearest_append [OF pos j, of "ptr_add x (i * d)" y d]
        by (simp add: old bn)
    qed
  qed
  then show ?thesis
    unfolding elkan_upto_def s'_def [symmetric] by (cases s') simp
qed

text \<open>
  C4. For every database of at least one vector and every positive block size,
  \<^verbatim>\<open>elkan_L2_sse\<close> returns, and assigns each query \<open>i\<close> exactly what the brute-force scan
  over all \<open>ny\<close> vectors gives: the id is a database position, the value is the squared
  distance to it, no database vector is closer, and every earlier one is strictly
  farther. (Lemma \<open>elkan_skip_sound\<close> is the skip bound, \<open>elkan_scan_step\<close> the two-half
  evaluation, \<open>elkan_block_commit\<close> the commit across blocks.)
\<close>

theorem elkan_L2_sse_exact_nearest:
  assumes "0 < bs_y" "0 < ny"
  shows "\<exists>ids' val'. elkan_L2_sse bs_y pf x y d nx ny ids val = Inr (ids', val')
     \<and> (\<forall>i<nx.
          (ids' i, val' i) = (int (fst (brute_force_nearest (ptr_add x (i * d)) y d ny)),
                              snd (brute_force_nearest (ptr_add x (i * d)) y d ny))
          \<and> 0 \<le> ids' i \<and> nat (ids' i) < ny
          \<and> val' i = fvec_L2sqr (ptr_add x (i * d)) (ptr_add y (nat (ids' i) * d)) d
          \<and> (\<forall>j<ny. val' i \<le> fvec_L2sqr (ptr_add x (i * d)) (ptr_add y (j * d)) d)
          \<and> (\<forall>j<nat (ids' i). val' i < fvec_L2sqr (ptr_add x (i * d)) (ptr_add y (j * d)) d))"
proof (cases "nx = 0")
  case True
  then show ?thesis by (simp add: elkan_L2_sse_def)
next
  case False
  define body where "body = (\<lambda>j0 j1 (data, ids :: nat \<Rightarrow> int, val :: fptr).
              let data = elkan_pairwise y d j0 j1 data
              in (Inr (data, elkan_assign_block x y d nx j0 j1 data (ids, val))
                  :: fault + fptr \<times> (nat \<Rightarrow> int) \<times> fptr))"
  have "\<exists>s'. block_loop bs_y ny body 0 (uninitialized pf, ids, val) = Inr s'"
    by (rule block_loop_returns [OF assms(1)]) (simp add: body_def Let_def case_prod_beta)
  then obtain data' ids' val' where
    run: "block_loop bs_y ny body 0 (uninitialized pf, ids, val) = Inr (data', ids', val')"
    by (metis prod_cases3)
  have res: "elkan_L2_sse bs_y pf x y d nx ny ids val = Inr (ids', val')"
    using False assms(2) run unfolding elkan_L2_sse_def body_def by simp
  have "elkan_upto x y d nx ny (data', ids', val')"
  proof (rule block_loop_invariant_upto [OF run])
    show "elkan_upto x y d nx (min ny 0) (uninitialized pf, ids, val)"
      by (simp add: elkan_upto_def)
  next
    fix j0 j1 s s'
    assume inv: "elkan_upto x y d nx j0 s" and j: "j0 < j1" and b: "body j0 j1 s = Inr s'"
    obtain dt idl vl where s: "s = (dt, idl, vl)" by (cases s)
    show "elkan_upto x y d nx j1 s'"
      using elkan_block_step [OF inv [unfolded s] j] b
      unfolding s body_def by (simp add: Let_def)
  qed
  then have fin: "(ids' i, val' i) =
      (case block_nearest (ptr_add x (i * d)) y d 0 ny of (b, v) \<Rightarrow> (int b, v))" if "i < nx" for i
    using that assms(2) by (auto simp: elkan_upto_def)
  have "(ids' i, val' i) = (int (fst (brute_force_nearest (ptr_add x (i * d)) y d ny)),
                              snd (brute_force_nearest (ptr_add x (i * d)) y d ny))
          \<and> 0 \<le> ids' i \<and> nat (ids' i) < ny
          \<and> val' i = fvec_L2sqr (ptr_add x (i * d)) (ptr_add y (nat (ids' i) * d)) d
          \<and> (\<forall>j<ny. val' i \<le> fvec_L2sqr (ptr_add x (i * d)) (ptr_add y (j * d)) d)
          \<and> (\<forall>j<nat (ids' i). val' i < fvec_L2sqr (ptr_add x (i * d)) (ptr_add y (j * d)) d)"
    if i: "i < nx" for i
  proof -
    obtain b v where bn: "block_nearest (ptr_add x (i * d)) y d 0 ny = (b, v)"
      by (cases "block_nearest (ptr_add x (i * d)) y d 0 ny")
    have iv: "ids' i = int b" "val' i = v"
      using fin [OF i] bn by simp_all
    note props = block_nearest_props [OF assms(2) bn]
    have p1: "b < ny" and p2: "v = fvec_L2sqr (ptr_add x (i * d)) (ptr_add y (b * d)) d"
      using props by blast+
    have p3: "v \<le> fvec_L2sqr (ptr_add x (i * d)) (ptr_add y (j * d)) d" if "j < ny" for j
      using props that by blast
    have p4: "v < fvec_L2sqr (ptr_add x (i * d)) (ptr_add y (j * d)) d" if "j < b" for j
      using props that by blast
    show ?thesis
      unfolding iv brute_force_nearest_block bn using p1 p2 p3 p4 by auto
  qed
  with res show ?thesis by blast
qed

theorem elkan_L2_sse_exact_nearest_witness:
  "(0::nat) < 2 \<and> (0::nat) < 3
   \<and> (\<exists>ids' val'. elkan_L2_sse 2 single_thread (float_array [0]) (float_array [3, 1, 2])
         1 1 3 (\<lambda>i. - 1) (\<lambda>i. 0) = Inr (ids', val') \<and> ids' 0 = 1 \<and> val' 0 = 1)
   \<and> (\<exists>ids' val'. elkan_L2_sse elkan_bs_y single_thread (float_array [0]) (float_array [3, 1, 2])
         1 1 3 (\<lambda>i. - 1) (\<lambda>i. 0) = Inr (ids', val') \<and> ids' 0 = 1 \<and> val' 0 = 1)"
proof -
  have upt: "[Suc 0..<3] = [1, 2]"
    by code_simp
  have brute: "brute_force_nearest (ptr_add (float_array [0]) (0 * 1)) (float_array [3, 1, 2]) 1 3
      = (1, 1)"
    by (simp add: brute_force_nearest_def upt float_array_def ptr_add_def Let_def)
  have bs: "(0::nat) < 2" "(0::nat) < 3" "0 < elkan_bs_y" "(0::nat) < 1"
    by (simp_all add: elkan_bs_y_def)
  have a: "\<exists>ids' val'. elkan_L2_sse 2 single_thread (float_array [0]) (float_array [3, 1, 2])
         1 1 3 (\<lambda>i. - 1) (\<lambda>i. 0) = Inr (ids', val') \<and> ids' 0 = 1 \<and> val' 0 = 1"
    using elkan_L2_sse_exact_nearest [OF bs(1) bs(2), of single_thread "float_array [0]"
        "float_array [3, 1, 2]" 1 1 "\<lambda>i. - 1" "\<lambda>i. 0"] bs(4) brute
    by (metis fst_conv snd_conv of_nat_1 prod.inject)
  have b: "\<exists>ids' val'. elkan_L2_sse elkan_bs_y single_thread (float_array [0])
         (float_array [3, 1, 2]) 1 1 3 (\<lambda>i. - 1) (\<lambda>i. 0) = Inr (ids', val')
         \<and> ids' 0 = 1 \<and> val' 0 = 1"
    using elkan_L2_sse_exact_nearest [OF bs(3) bs(2), of single_thread "float_array [0]"
        "float_array [3, 1, 2]" 1 1 "\<lambda>i. - 1" "\<lambda>i. 0"] bs(4) brute
    by (metis fst_conv snd_conv of_nat_1 prod.inject)
  show ?thesis
    using a b by simp
qed

section \<open>Empty-index guards of the GPU flat index node\<close>


end
